theory Spec2Isabelle
  imports Main "HOL-Library.Word" "HOL-Library.Multiset" "HOL-Library.Char_ord"
    "HOL-Library.List_Lexorder"
begin

unbundle bit_operations_syntax

section \<open>Status values and string building\<close>

text \<open>
  A \<open>Status\<close> of the source is either OK or an error code with a message. The
  constructors \<open>errors::InvalidArgument(...)\<close> and \<open>errors::NotFound(...)\<close> concatenate
  their arguments into the message.
\<close>

datatype Code = INVALID_ARGUMENT | NOT_FOUND | INTERNAL | UNKNOWN

datatype Status = OK | Error Code string

definition InvalidArgument :: "string list \<Rightarrow> Status" where
  "InvalidArgument parts = Error INVALID_ARGUMENT (concat parts)"

definition NotFound :: "string list \<Rightarrow> Status" where
  "NotFound parts = Error NOT_FOUND (concat parts)"

text \<open>Decimal rendering of integers, as \<open>absl::StrCat\<close> does for integer arguments.\<close>

definition digit_char :: "nat \<Rightarrow> char" where
  "digit_char d = char_of (48 + d)"

function string_of_nat :: "nat \<Rightarrow> string" where
  "string_of_nat n =
     (if n < 10 then [digit_char n] else string_of_nat (n div 10) @ [digit_char (n mod 10)])"
  by pat_completeness auto
termination
  by (relation "measure id") auto

declare string_of_nat.simps [simp del]

definition string_of_int :: "int \<Rightarrow> string" where
  "string_of_int i = (if i < 0 then CHR ''-'' # string_of_nat (nat (- i)) else string_of_nat (nat i))"

section \<open>Configuration: tensor ids, feeds, fetches\<close>

type_synonym DataType = int

definition DT_INVALID :: DataType where
  "DT_INVALID = 0"

record TensorShapeProto =
  dim :: "int list"
  unknown_rank :: bool

record TensorId =
  node_name :: string
  output_index :: int

record Feed =
  feed_id :: TensorId
  feed_shape :: TensorShapeProto
  feed_name :: string
  feed_type :: DataType

record Fetch =
  fetch_id :: TensorId
  fetch_name :: string

record Config =
  feed :: "Feed list"
  fetch :: "Fetch list"

definition TensorIdToString :: "TensorId \<Rightarrow> string" where
  "TensorIdToString tid = node_name tid @ '':'' @ string_of_int (output_index tid)"

section \<open>ValidateConfig\<close>

definition ValidateTensorId :: "TensorId \<Rightarrow> Status" where
  "ValidateTensorId tid =
     (if node_name tid = [] then InvalidArgument [''TensorId node_name must be non-empty'']
      else if output_index tid < 0 then InvalidArgument [''TensorId output_index must be positive'']
      else OK)"

text \<open>
  Modelled from the spec: \<open>TensorShape::IsValidShape\<close> is not part of the file under
  verification. Section 4.1 of the specification says that a feed's shape must be a valid
  shape (no negative dimensions), else \<open>InvalidArgument\<close>.
\<close>

definition IsValidShape :: "TensorShapeProto \<Rightarrow> Status" where
  "IsValidShape s =
     (if \<exists>d \<in> set (dim s). d < 0 then InvalidArgument [''Shape has a negative dimension'']
      else OK)"

text \<open>
  \<open>std::set<string>\<close> is an ordered set: it is kept as a strictly increasing list, and
  \<open>set_insert\<close> returns the new set with the flag \<open>.second\<close> of \<open>insert\<close> (whether the
  element was new).
\<close>

fun set_insert :: "string \<Rightarrow> string list \<Rightarrow> string list \<times> bool" where
  "set_insert x [] = ([x], True)"
| "set_insert x (y # ys) =
     (if x < y then (x # y # ys, True)
      else if x = y then (y # ys, False)
      else (let (r, b) = set_insert x ys in (y # r, b)))"

definition CheckNameDuplicates :: "string \<Rightarrow> string \<Rightarrow> string list \<Rightarrow> Status \<times> string list" where
  "CheckNameDuplicates kind name names =
     (if name \<noteq> [] then
        (let (names', fresh) = set_insert name names in
         if \<not> fresh then (InvalidArgument [''duplicate '', kind, '' name: '', name], names')
         else (OK, names'))
      else (OK, names))"

fun conflicts_loop :: "string \<Rightarrow> string list \<Rightarrow> string list \<Rightarrow> Status" where
  "conflicts_loop kind names [] = OK"
| "conflicts_loop kind names (name # rest) =
     (let name_data = name @ ''_data'' in
      if name_data \<in> set names then
        InvalidArgument [''conflicting '', kind, '' name: '', name, '' and '', name_data]
      else conflicts_loop kind names rest)"

definition CheckFeedFetchNameConflicts :: "string \<Rightarrow> string list \<Rightarrow> Status" where
  "CheckFeedFetchNameConflicts kind names = conflicts_loop kind names names"

text \<open>The loop over the feeds; each \<open>TF_RETURN_IF_ERROR\<close> is an early return.\<close>

fun validate_feeds :: "Feed list \<Rightarrow> string list \<Rightarrow> Status \<times> string list" where
  "validate_feeds [] names = (OK, names)"
| "validate_feeds (f # fs) names =
     (case ValidateTensorId (feed_id f) of
        Error c m \<Rightarrow> (Error c m, names)
      | OK \<Rightarrow>
        (case IsValidShape (feed_shape f) of
           Error c m \<Rightarrow> (Error c m, names)
         | OK \<Rightarrow>
           (case CheckNameDuplicates ''feed'' (feed_name f) names of
              (Error c m, names') \<Rightarrow> (Error c m, names')
            | (OK, names') \<Rightarrow> validate_feeds fs names')))"

fun validate_fetches :: "Fetch list \<Rightarrow> string list \<Rightarrow> Status \<times> string list" where
  "validate_fetches [] names = (OK, names)"
| "validate_fetches (f # fs) names =
     (case ValidateTensorId (fetch_id f) of
        Error c m \<Rightarrow> (Error c m, names)
      | OK \<Rightarrow>
        (case CheckNameDuplicates ''fetch'' (fetch_name f) names of
           (Error c m, names') \<Rightarrow> (Error c m, names')
         | (OK, names') \<Rightarrow> validate_fetches fs names'))"

definition ValidateConfig :: "Config \<Rightarrow> Status" where
  "ValidateConfig config =
     (case validate_feeds (feed config) [] of
        (Error c m, _) \<Rightarrow> Error c m
      | (OK, names) \<Rightarrow>
        (case CheckFeedFetchNameConflicts ''feed'' names of
           Error c m \<Rightarrow> Error c m
         | OK \<Rightarrow>
           (case validate_fetches (fetch config) [] of
              (Error c m, _) \<Rightarrow> Error c m
            | (OK, names2) \<Rightarrow>
              (case CheckFeedFetchNameConflicts ''fetch'' names2 of
                 Error c m \<Rightarrow> Error c m
               | OK \<Rightarrow>
                 if fetch config = [] then InvalidArgument [''fetches must be specified'']
                 else OK))))"

section \<open>Graph definitions\<close>

text \<open>
  An attribute value is one of several kinds; the kind that matters to this file is the
  function-valued one (\<open>has_func\<close>), a \<open>NameAttrList\<close> of a function name and that
  reference's own attribute map. Attribute maps are association lists, read in their
  iteration order.
\<close>

datatype AttrValue =
    AttrType DataType
  | AttrShape TensorShapeProto
  | AttrString string
  | AttrFunc string "(string \<times> AttrValue) list"

type_synonym AttrValueMap = "(string \<times> AttrValue) list"

fun has_func :: "AttrValue \<Rightarrow> bool" where
  "has_func (AttrFunc n a) = True"
| "has_func _ = False"

fun func_name :: "AttrValue \<Rightarrow> string" where
  "func_name (AttrFunc n a) = n"
| "func_name _ = []"

fun func_attr :: "AttrValue \<Rightarrow> AttrValueMap" where
  "func_attr (AttrFunc n a) = a"
| "func_attr _ = []"

record NodeDef =
  nd_name :: string
  nd_op :: string
  nd_input :: "string list"
  nd_device :: string
  nd_attr :: AttrValueMap

record VersionDef =
  producer :: int
  min_consumer :: int

record GraphDef =
  gd_node :: "NodeDef list"
  gd_versions :: VersionDef
  gd_library :: "string list"

section \<open>Containers\<close>

text \<open>
  \<open>std::unordered_map<string, V>\<close> is an association list with distinct keys. Its
  iteration order is unspecified in the source: where a fresh key lands is decided by
  the parameter \<open>h\<close> (a \<open>hash_order\<close>), which is given the key and the keys already
  present. Assigning to a key that is present replaces the value in place.
\<close>

type_synonym 'v unordered_map = "(string \<times> 'v) list"

type_synonym hash_order = "string \<Rightarrow> string list \<Rightarrow> nat"

definition um_find :: "'v unordered_map \<Rightarrow> string \<Rightarrow> 'v option" where
  "um_find m k = map_of m k"

fun um_replace :: "string \<Rightarrow> 'v \<Rightarrow> 'v unordered_map \<Rightarrow> 'v unordered_map" where
  "um_replace k v [] = []"
| "um_replace k v ((k', v') # r) = (if k' = k then (k, v) # r else (k', v') # um_replace k v r)"

definition um_assign :: "hash_order \<Rightarrow> string \<Rightarrow> 'v \<Rightarrow> 'v unordered_map \<Rightarrow> 'v unordered_map" where
  "um_assign h k v m =
     (if k \<in> set (map fst m) then um_replace k v m
      else (let i = h k (map fst m) in take i m @ (k, v) # drop i m))"

text \<open>\<open>std::map<string, V>\<close> is ordered by key: a list with strictly increasing keys.\<close>

fun map_assign :: "string \<Rightarrow> 'v \<Rightarrow> (string \<times> 'v) list \<Rightarrow> (string \<times> 'v) list" where
  "map_assign k v [] = [(k, v)]"
| "map_assign k v ((k', v') # r) =
     (if k < k' then (k, v) # (k', v') # r
      else if k = k' then (k, v) # r
      else (k', v') # map_assign k v r)"

definition map_find :: "(string \<times> 'v) list \<Rightarrow> string \<Rightarrow> 'v option" where
  "map_find m k = map_of m k"

section \<open>Collaborators that are outside the file\<close>

text \<open>
  The op registry decides how a node definition is completed and built. Its three uses
  in this file are parameters: \<open>AddDefaultAttrs\<close> is \<open>AddDefaultAttrsToGraphDef\<close> on a
  graph definition of one node with the given versions, \<open>BuildNode\<close> is the
  construction done by \<open>Graph::AddNode\<close> in a graph of the given versions (a status, and
  the input and output types of the node built), \<open>BaseType\<close> strips a reference type.
\<close>

record NodeProps =
  input_types :: "DataType list"
  output_types :: "DataType list"

record OpRegistry =
  AddDefaultAttrs :: "VersionDef \<Rightarrow> NodeDef \<Rightarrow> Status \<times> NodeDef"
  BuildNode :: "VersionDef \<Rightarrow> NodeDef \<Rightarrow> Status \<times> NodeProps"
  BaseType :: "DataType \<Rightarrow> DataType"

text \<open>
  \<open>ParseTensorName\<close> and \<open>TensorId::ToString\<close> of the graph library are parameters
  too: \<open>parse\<close> maps an input string to a node name and an output slot, \<open>to_string\<close>
  renders such a pair.
\<close>

type_synonym parser = "string \<Rightarrow> string \<times> int"

type_synonym printer = "string \<times> int \<Rightarrow> string"

text \<open>
  Reading an output type outside the declared outputs is undefined in the source; the
  model returns \<open>DT_INVALID\<close> there.
\<close>

definition num_outputs :: "NodeProps \<Rightarrow> int" where
  "num_outputs p = int (length (output_types p))"

definition output_type :: "NodeProps \<Rightarrow> int \<Rightarrow> DataType" where
  "output_type p i = (if 0 \<le> i \<and> i < num_outputs p then output_types p ! nat i else DT_INVALID)"

section \<open>AddPlaceholdersForFeeds\<close>

record PlaceholderInfo =
  pi_feed :: Feed
  pi_placeholder_name :: string
  pi_data_type :: DataType

text \<open>
  First loop: every feed is filed under its \<open>name:port\<close> string in the ordered map
  \<open>placeholder_info\<close> and in the caller's \<open>feed_remapping\<close>. \<open>operator[]\<close> creates a
  default entry (data type \<open>DT_INVALID\<close>) where the key is new; the feed and the
  placeholder name are then assigned.
\<close>

fun collect_feeds ::
  "hash_order \<Rightarrow> Feed list \<Rightarrow> (string \<times> PlaceholderInfo) list \<Rightarrow> string unordered_map \<Rightarrow>
   (string \<times> PlaceholderInfo) list \<times> string unordered_map" where
  "collect_feeds h [] placeholder_info feed_remapping = (placeholder_info, feed_remapping)"
| "collect_feeds h (f # fs) placeholder_info feed_remapping =
     (let name_port = TensorIdToString (feed_id f);
          info = \<lparr>pi_feed = f,
                  pi_placeholder_name =
                    ''aot_feed_'' @ string_of_int (output_index (feed_id f)) @ ''/'' @
                    node_name (feed_id f),
                  pi_data_type =
                    (case map_find placeholder_info name_port of
                       None \<Rightarrow> DT_INVALID | Some old \<Rightarrow> pi_data_type old)\<rparr>
      in collect_feeds h fs (map_assign name_port info placeholder_info)
           (um_assign h name_port (pi_placeholder_name info) feed_remapping))"

text \<open>The map from node names to the nodes of the graph definition.\<close>

fun build_name_to_node :: "hash_order \<Rightarrow> NodeDef list \<Rightarrow> NodeDef unordered_map \<Rightarrow> NodeDef unordered_map" where
  "build_name_to_node h [] name_to_node = name_to_node"
| "build_name_to_node h (n # ns) name_to_node =
     build_name_to_node h ns (um_assign h (nd_name n) n name_to_node)"

text \<open>Building the node in a one-node graph in order to infer the type of an output.\<close>

definition infer_data_type :: "OpRegistry \<Rightarrow> VersionDef \<Rightarrow> NodeDef \<Rightarrow> Feed \<Rightarrow> Status \<times> DataType" where
  "infer_data_type op_registry versions existing f =
     (case AddDefaultAttrs op_registry versions existing of
        (Error c m, _) \<Rightarrow> (Error c m, DT_INVALID)
      | (OK, nd) \<Rightarrow>
        (case BuildNode op_registry versions nd of
           (Error c m, _) \<Rightarrow> (Error c m, DT_INVALID)
         | (OK, feed_node) \<Rightarrow>
           if output_index (feed_id f) < num_outputs feed_node then
             (OK, BaseType op_registry (output_type feed_node (output_index (feed_id f))))
           else
             (InvalidArgument [''Invalid output_index '', string_of_int (output_index (feed_id f)),
                               '' for feed node '', node_name (feed_id f)], DT_INVALID)))"

text \<open>Second loop, over \<open>placeholder_info\<close> in key order: the node must exist, then the type.\<close>

fun resolve_types ::
  "OpRegistry \<Rightarrow> VersionDef \<Rightarrow> NodeDef unordered_map \<Rightarrow> (string \<times> PlaceholderInfo) list \<Rightarrow>
   Status \<times> (string \<times> PlaceholderInfo) list" where
  "resolve_types op_registry versions name_to_node [] = (OK, [])"
| "resolve_types op_registry versions name_to_node ((k, info) # rest) =
     (case um_find name_to_node (node_name (feed_id (pi_feed info))) of
        None \<Rightarrow>
          (NotFound [''Can't find feed node: '', TensorIdToString (feed_id (pi_feed info))], [])
      | Some existing \<Rightarrow>
          (case (if feed_type (pi_feed info) \<noteq> DT_INVALID then (OK, feed_type (pi_feed info))
                 else infer_data_type op_registry versions existing (pi_feed info)) of
             (Error c m, _) \<Rightarrow> (Error c m, [])
           | (OK, dt) \<Rightarrow>
             (case resolve_types op_registry versions name_to_node rest of
                (Error c m, _) \<Rightarrow> (Error c m, [])
              | (OK, rest') \<Rightarrow> (OK, (k, info\<lparr>pi_data_type := dt\<rparr>) # rest'))))"

text \<open>Third loop: one \<open>PlaceholderV2\<close> node per entry, appended to the graph.\<close>

definition make_placeholder :: "PlaceholderInfo \<Rightarrow> NodeDef" where
  "make_placeholder info =
     \<lparr>nd_name = pi_placeholder_name info, nd_op = ''PlaceholderV2'', nd_input = [], nd_device = [],
      nd_attr = [(''dtype'', AttrType (pi_data_type info)),
                 (''shape'', AttrShape (feed_shape (pi_feed info)))]\<rparr>"

text \<open>Fourth loop: inputs that name a fed tensor are redirected to its placeholder.\<close>

definition rewrite_input ::
  "parser \<Rightarrow> printer \<Rightarrow> (string \<times> PlaceholderInfo) list \<Rightarrow> string \<Rightarrow> string" where
  "rewrite_input parse to_string placeholder_info inp =
     (case map_find placeholder_info (to_string (parse inp)) of
        Some info \<Rightarrow> pi_placeholder_name info
      | None \<Rightarrow> inp)"

definition rewrite_node ::
  "parser \<Rightarrow> printer \<Rightarrow> (string \<times> PlaceholderInfo) list \<Rightarrow> NodeDef \<Rightarrow> NodeDef" where
  "rewrite_node parse to_string placeholder_info node_def =
     node_def\<lparr>nd_input := map (rewrite_input parse to_string placeholder_info) (nd_input node_def)\<rparr>"

text \<open>
  The function returns its status with the two objects it writes to, the caller's
  \<open>feed_remapping\<close> and the graph definition. Every error return happens in the second
  loop, after \<open>feed_remapping\<close> has been filled and before the graph is touched.
\<close>

definition AddPlaceholdersForFeeds ::
  "hash_order \<Rightarrow> parser \<Rightarrow> printer \<Rightarrow> Config \<Rightarrow> OpRegistry \<Rightarrow> string unordered_map \<Rightarrow> GraphDef \<Rightarrow>
   Status \<times> string unordered_map \<times> GraphDef" where
  "AddPlaceholdersForFeeds h parse to_string config op_registry feed_remapping graph_def =
     (let (placeholder_info, feed_remapping') = collect_feeds h (feed config) [] feed_remapping;
          name_to_node = build_name_to_node h (gd_node graph_def) []
      in case resolve_types op_registry (gd_versions graph_def) name_to_node placeholder_info of
           (Error c m, _) \<Rightarrow> (Error c m, feed_remapping', graph_def)
         | (OK, placeholder_info') \<Rightarrow>
             (OK, feed_remapping',
              graph_def\<lparr>gd_node :=
                map (rewrite_node parse to_string placeholder_info')
                  (gd_node graph_def @ map (make_placeholder \<circ> snd) placeholder_info')\<rparr>))"

section \<open>PruneGraphDefInto\<close>

text \<open>
  The set \<open>feed_tensors\<close> is a \<open>std::set<std::pair<string, int>>\<close>: the output index
  of a feed is narrowed to a 32-bit signed integer when the pair is inserted. The
  wrap-around of that conversion is written out in \<open>to_int32\<close>.
\<close>

definition to_int32 :: "int \<Rightarrow> int" where
  "to_int32 i = (i + 2147483648) mod 4294967296 - 2147483648"

definition feed_tensors_of :: "Config \<Rightarrow> (string \<times> int) set" where
  "feed_tensors_of config =
     set (map (\<lambda>f. (node_name (feed_id f), to_int32 (output_index (feed_id f)))) (feed config))"

fun build_node_by_name ::
  "hash_order \<Rightarrow> NodeDef list \<Rightarrow> (bool \<times> NodeDef) unordered_map \<Rightarrow> (bool \<times> NodeDef) unordered_map" where
  "build_node_by_name h [] node_by_name = node_by_name"
| "build_node_by_name h (n # ns) node_by_name =
     build_node_by_name h ns (um_assign h (nd_name n) (False, n) node_by_name)"

text \<open>
  The names pushed for a node that is visited for the first time: one per input,
  except inputs whose (node, slot) pair is a fed tensor.
\<close>

fun push_inputs :: "parser \<Rightarrow> (string \<times> int) set \<Rightarrow> string list \<Rightarrow> string list" where
  "push_inputs parse feed_tensors [] = []"
| "push_inputs parse feed_tensors (in_edge # rest) =
     (if parse in_edge \<in> feed_tensors then push_inputs parse feed_tensors rest
      else fst (parse in_edge) # push_inputs parse feed_tensors rest)"

text \<open>The traversal loop over the queue of names.\<close>

function traverse ::
  "parser \<Rightarrow> (string \<times> int) set \<Rightarrow> (bool \<times> NodeDef) unordered_map \<Rightarrow> string list \<Rightarrow>
   Status \<times> (bool \<times> NodeDef) unordered_map" where
  "traverse parse feed_tensors node_by_name [] = (OK, node_by_name)"
| "traverse parse feed_tensors node_by_name (name # name_queue) =
     (case um_find node_by_name name of
        None \<Rightarrow>
          (InvalidArgument [''While pruning graph, node '', name,
                            '' needed but not found in the graph.''], node_by_name)
      | Some (visited, node) \<Rightarrow>
          if visited then traverse parse feed_tensors node_by_name name_queue
          else traverse parse feed_tensors (um_replace name (True, node) node_by_name)
                 (name_queue @ push_inputs parse feed_tensors (nd_input node)))"
  by pat_completeness auto
termination
proof (relation "measures [\<lambda>(p, f, m, q). length (filter (\<lambda>e. \<not> fst (snd e)) m),
                           \<lambda>(p, f, m, q). length q]", goal_cases)
  case 1
  show ?case by simp
next
  case (2 parse feed_tensors node_by_name name name_queue x2 visited node)
  then show ?case by simp
next
  case (3 parse feed_tensors node_by_name name name_queue x2 visited node)
  have "map_of m name = Some (False, nd) \<Longrightarrow>
        length (filter (\<lambda>e. \<not> fst (snd e)) (um_replace name (True, nd) m))
          < length (filter (\<lambda>e. \<not> fst (snd e)) m)" for m :: "(bool \<times> NodeDef) unordered_map" and nd
    by (induction m) (auto split: if_splits)
  with 3 show ?case by (simp add: um_find_def)
qed

definition is_visited :: "(bool \<times> NodeDef) unordered_map \<Rightarrow> string \<Rightarrow> bool" where
  "is_visited node_by_name k = (case um_find node_by_name k of Some (b, _) \<Rightarrow> b | None \<Rightarrow> False)"

definition PruneGraphDefInto :: "hash_order \<Rightarrow> parser \<Rightarrow> Config \<Rightarrow> GraphDef \<Rightarrow> Status \<times> GraphDef" where
  "PruneGraphDefInto h parse config in_graph =
     (let out = in_graph\<lparr>gd_node := []\<rparr>;
          feed_tensors = feed_tensors_of config;
          node_by_name = build_node_by_name h (gd_node in_graph) [];
          name_queue = map (\<lambda>f. node_name (fetch_id f)) (fetch config)
      in case traverse parse feed_tensors node_by_name name_queue of
           (Error c m, _) \<Rightarrow> (Error c m, out)
         | (OK, node_by_name') \<Rightarrow>
             (OK, out\<lparr>gd_node := filter (\<lambda>node. is_visited node_by_name' (nd_name node))
                                    (gd_node in_graph)\<rparr>))"

section \<open>The graph and node replacement\<close>

text \<open>
  Modelled from the spec: the \<open>Graph\<close> class is outside the file. Following sections 3
  and 6 of the specification, a graph owns nodes and edges; a \<open>Node*\<close> is the node's id;
  an edge goes from an output slot of its source to an input slot of its destination and
  is a control edge when its slot is the control slot. \<open>AddNode\<close> fails with the
  registry's error when the definition cannot be built and otherwise adds a node with a
  fresh id; \<open>AddEdge\<close> and \<open>RemoveEdge\<close> add and remove one edge; \<open>RemoveNode\<close>
  removes a node with the edges at it, so that every edge keeps both endpoints in the
  graph.
\<close>

record Node =
  n_def :: NodeDef
  n_props :: NodeProps
  n_assigned_device_name :: string

record Edge =
  e_src :: nat
  e_src_output :: int
  e_dst :: nat
  e_dst_input :: int

record Graph =
  g_nodes :: "(nat \<times> Node) list"
  g_edges :: "Edge list"
  g_num_node_ids :: nat
  g_versions :: VersionDef

definition kControlSlot :: int where
  "kControlSlot = - 1"

definition IsControlEdge :: "Edge \<Rightarrow> bool" where
  "IsControlEdge e = (e_src_output e = kControlSlot)"

definition node_by_id :: "Graph \<Rightarrow> nat \<Rightarrow> Node option" where
  "node_by_id g n = map_of (g_nodes g) n"

definition in_edges :: "Graph \<Rightarrow> nat \<Rightarrow> Edge list" where
  "in_edges g n = filter (\<lambda>e. e_dst e = n) (g_edges g)"

definition out_edges :: "Graph \<Rightarrow> nat \<Rightarrow> Edge list" where
  "out_edges g n = filter (\<lambda>e. e_src e = n) (g_edges g)"

definition AddNode :: "OpRegistry \<Rightarrow> Graph \<Rightarrow> NodeDef \<Rightarrow> Status \<times> Graph \<times> nat" where
  "AddNode op_registry g node_def =
     (case BuildNode op_registry (g_versions g) node_def of
        (Error c m, _) \<Rightarrow> (Error c m, g, 0)
      | (OK, props) \<Rightarrow>
          (OK,
           g\<lparr>g_nodes := g_nodes g @
                [(g_num_node_ids g,
                  \<lparr>n_def = node_def, n_props = props, n_assigned_device_name = []\<rparr>)],
             g_num_node_ids := Suc (g_num_node_ids g)\<rparr>,
           g_num_node_ids g))"

definition AddEdge :: "Graph \<Rightarrow> nat \<Rightarrow> int \<Rightarrow> nat \<Rightarrow> int \<Rightarrow> Graph" where
  "AddEdge g source x dest y =
     g\<lparr>g_edges := g_edges g @ [\<lparr>e_src = source, e_src_output = x, e_dst = dest, e_dst_input = y\<rparr>]\<rparr>"

definition RemoveEdge :: "Graph \<Rightarrow> Edge \<Rightarrow> Graph" where
  "RemoveEdge g e = g\<lparr>g_edges := remove1 e (g_edges g)\<rparr>"

definition RemoveNode :: "Graph \<Rightarrow> nat \<Rightarrow> Graph" where
  "RemoveNode g n =
     g\<lparr>g_nodes := filter (\<lambda>p. fst p \<noteq> n) (g_nodes g),
       g_edges := filter (\<lambda>e. e_src e \<noteq> n \<and> e_dst e \<noteq> n) (g_edges g)\<rparr>"

text \<open>
  \<open>ReplaceNode\<close> returns a \<open>StatusOr<Node*>\<close>: the status, and the new node when the
  status is OK. The graph it has written to is returned with them.
\<close>

record OutEdgeInfo =
  oe_dst :: nat
  oe_src_output :: int
  oe_dst_input :: int

definition ReplaceNode :: "OpRegistry \<Rightarrow> Graph \<Rightarrow> nat \<Rightarrow> NodeDef \<Rightarrow> Status \<times> Graph \<times> nat option" where
  "ReplaceNode op_registry g n node_def =
     (case AddNode op_registry g node_def of
        (Error c m, g', _) \<Rightarrow> (Error c m, g', None)
      | (OK, g1, new_node) \<Rightarrow>
          (let out_edges_n = out_edges g1 n;
               out_edge_info =
                 map (\<lambda>edge. \<lparr>oe_dst = e_dst edge, oe_src_output = e_src_output edge,
                              oe_dst_input = e_dst_input edge\<rparr>) out_edges_n;
               g2 = foldl RemoveEdge g1 out_edges_n;
               g3 = foldl (\<lambda>g in_edge. AddEdge g (e_src in_edge) (e_src_output in_edge) new_node
                                           (e_dst_input in_edge)) g2 (in_edges g2 n);
               g4 = foldl (\<lambda>g out_edge. AddEdge g new_node (oe_src_output out_edge) (oe_dst out_edge)
                                            (oe_dst_input out_edge)) g3 out_edge_info;
               g5 = RemoveNode g4 n
           in (OK, g5, Some new_node)))"

section \<open>Associated functions\<close>

text \<open>
  Modelled from the spec: the function library is outside the file. By sections 3 and 6
  it maps function names to definitions and function names to the name of their
  registered gradient function; \<open>FindGradient\<close> returns that name or the empty string;
  \<open>AddGradientDef\<close> and \<open>ReplaceGradient\<close> return a status. Adding a gradient that
  contradicts a registered one and replacing one that is not registered are the errors
  of the library; the marker names \<open>kGradientOp\<close> and \<open>kFuncAttr\<close> are its reserved
  names.
\<close>

record FunctionLibraryDefinition =
  fld_functions :: "string list"
  fld_func_grad :: "string \<rightharpoonup> string"

record GradientDef =
  function_name :: string
  gradient_func :: string

definition kGradientOp :: string where
  "kGradientOp = ''SymbolicGradient''"

definition kFuncAttr :: string where
  "kFuncAttr = ''f''"

definition Contains :: "FunctionLibraryDefinition \<Rightarrow> string \<Rightarrow> bool" where
  "Contains fld fn = (fn \<in> set (fld_functions fld))"

definition FindGradient :: "FunctionLibraryDefinition \<Rightarrow> string \<Rightarrow> string" where
  "FindGradient fld fn = (case fld_func_grad fld fn of None \<Rightarrow> [] | Some g \<Rightarrow> g)"

definition AddGradientDef ::
  "FunctionLibraryDefinition \<Rightarrow> GradientDef \<Rightarrow> Status \<times> FunctionLibraryDefinition" where
  "AddGradientDef fld grad =
     (if FindGradient fld (function_name grad) \<noteq> [] then
        (if FindGradient fld (function_name grad) \<noteq> gradient_func grad then
           (InvalidArgument [''Cannot assign gradient function '', gradient_func grad, '' to '',
                             function_name grad, '' because it already has gradient function '',
                             FindGradient fld (function_name grad)], fld)
         else (OK, fld))
      else (OK, fld\<lparr>fld_func_grad := (fld_func_grad fld)(function_name grad \<mapsto> gradient_func grad)\<rparr>))"

definition ReplaceGradient ::
  "FunctionLibraryDefinition \<Rightarrow> GradientDef \<Rightarrow> Status \<times> FunctionLibraryDefinition" where
  "ReplaceGradient fld grad =
     (case fld_func_grad fld (function_name grad) of
        None \<Rightarrow>
          (InvalidArgument [''Tried to remove non-existent gradient '', function_name grad, ''.''], fld)
      | Some _ \<Rightarrow>
          (OK, fld\<lparr>fld_func_grad := (fld_func_grad fld)(function_name grad \<mapsto> gradient_func grad)\<rparr>))"

text \<open>The three shapes in which a node refers to a function.\<close>

datatype AssociatedFunctionType = kFunctionAttr | kFunctionCallNode | kSymbolicGradient

datatype AssociatedFunctionInfo =
    FunctionCall string AttrValueMap
  | SymbolicGradient string AttrValueMap
  | FunctionAttr string AttrValueMap string

fun afi_type :: "AssociatedFunctionInfo \<Rightarrow> AssociatedFunctionType" where
  "afi_type (FunctionCall fn attrs) = kFunctionCallNode"
| "afi_type (SymbolicGradient fn attrs) = kSymbolicGradient"
| "afi_type (FunctionAttr fn attrs an) = kFunctionAttr"

fun afi_attr_name :: "AssociatedFunctionInfo \<Rightarrow> string" where
  "afi_attr_name (FunctionAttr fn attrs an) = an"
| "afi_attr_name _ = []"

definition HasAssociatedFunction :: "NodeDef \<Rightarrow> FunctionLibraryDefinition \<Rightarrow> bool" where
  "HasAssociatedFunction node_def fld =
     (if Contains fld (nd_op node_def) then True
      else if nd_op node_def = kGradientOp then True
      else list_ex (\<lambda>iter. has_func (snd iter)) (nd_attr node_def))"

fun collect_function_attrs :: "AttrValueMap \<Rightarrow> AssociatedFunctionInfo list" where
  "collect_function_attrs [] = []"
| "collect_function_attrs (iter # rest) =
     (if has_func (snd iter) then
        FunctionAttr (func_name (snd iter)) (func_attr (snd iter)) (fst iter) #
        collect_function_attrs rest
      else collect_function_attrs rest)"

definition GetAssociatedFunctions :: "Node \<Rightarrow> FunctionLibraryDefinition \<Rightarrow> AssociatedFunctionInfo list" where
  "GetAssociatedFunctions node fld =
     (let op = nd_op (n_def node) in
      if Contains fld op then [FunctionCall op (nd_attr (n_def node))]
      else if nd_op (n_def node) = kGradientOp then [SymbolicGradient op (nd_attr (n_def node))]
      else collect_function_attrs (nd_attr (n_def node)))"

text \<open>
  Modelled from the spec: \<open>GetNodeAttr\<close> for a function-valued attribute,
  \<open>Node::input_node\<close> and \<open>NodeDefBuilder\<close> are outside the file. Reading an
  attribute fails with \<open>NotFound\<close> when the node has no attribute of that name and with
  \<open>InvalidArgument\<close> when the attribute holds no function; \<open>input_node\<close> is the source
  of the edge into the given input slot, \<open>NotFound\<close> when there is none. What the
  builder is given is recorded in \<open>NodeDefBuilder\<close>, and its \<open>Finalize\<close> is the
  parameter \<open>finalize\<close>.
\<close>

definition GetNodeAttr :: "AttrValueMap \<Rightarrow> string \<Rightarrow> Status \<times> string \<times> AttrValueMap" where
  "GetNodeAttr attrs attr_name =
     (case map_of attrs attr_name of
        None \<Rightarrow> (NotFound [''No attr named '', attr_name, '' in NodeDef''], [], [])
      | Some v \<Rightarrow>
          if has_func v then (OK, func_name v, func_attr v)
          else (InvalidArgument [''AttrValue of '', attr_name, '' is not a func''], [], []))"

definition input_node :: "Graph \<Rightarrow> nat \<Rightarrow> nat \<Rightarrow> Status \<times> nat" where
  "input_node g n idx =
     (case find (\<lambda>e. e_dst_input e = int idx) (in_edges g n) of
        None \<Rightarrow> (NotFound [''Could not find input edge '', string_of_int (int idx)], 0)
      | Some e \<Rightarrow> (OK, e_src e))"

definition name_of_node :: "Graph \<Rightarrow> nat \<Rightarrow> string" where
  "name_of_node g n = (case node_by_id g n of None \<Rightarrow> [] | Some node \<Rightarrow> nd_name (n_def node))"

record NodeDefBuilder =
  ndb_name :: string
  ndb_op :: string
  ndb_attrs :: AttrValueMap
  ndb_inputs :: "(string \<times> int \<times> DataType) list"
  ndb_device :: string

type_synonym finalizer = "FunctionLibraryDefinition \<Rightarrow> NodeDefBuilder \<Rightarrow> Status \<times> NodeDef"

fun builder_inputs :: "Graph \<Rightarrow> nat \<Rightarrow> Node \<Rightarrow> nat list \<Rightarrow> Status \<times> (string \<times> int \<times> DataType) list" where
  "builder_inputs graph n node [] = (OK, [])"
| "builder_inputs graph n node (i # rest) =
     (case input_node graph n i of
        (Error c m, _) \<Rightarrow> (Error c m, [])
      | (OK, inp) \<Rightarrow>
          (case builder_inputs graph n node rest of
             (Error c m, _) \<Rightarrow> (Error c m, [])
           | (OK, ins) \<Rightarrow>
               (OK, (name_of_node graph inp, int i, input_types (n_props node) ! i) # ins)))"

definition rewrite_function_call_node ::
  "OpRegistry \<Rightarrow> finalizer \<Rightarrow> Graph \<Rightarrow> nat \<Rightarrow> Node \<Rightarrow> FunctionLibraryDefinition \<Rightarrow> string \<Rightarrow>
   Status \<times> Graph" where
  "rewrite_function_call_node op_registry finalize graph n node fld rewritten_function_name =
     (case builder_inputs graph n node [0 ..< length (input_types (n_props node))] of
        (Error c m, _) \<Rightarrow> (Error c m, graph)
      | (OK, ins) \<Rightarrow>
          (case finalize fld
                  \<lparr>ndb_name = nd_name (n_def node), ndb_op = rewritten_function_name,
                   ndb_attrs = nd_attr (n_def node), ndb_inputs = ins,
                   ndb_device = (if n_assigned_device_name node = [] then nd_device (n_def node)
                                 else n_assigned_device_name node)\<rparr> of
             (Error c m, _) \<Rightarrow> (Error c m, graph)
           | (OK, node_def) \<Rightarrow>
               (case AddNode op_registry graph node_def of
                  (Error c m, g', _) \<Rightarrow> (Error c m, g')
                | (OK, g1, new_node) \<Rightarrow>
                    (let g2 = foldl (\<lambda>g edge. AddEdge g (e_src edge) (e_src_output edge) new_node
                                                  (e_dst_input edge)) g1 (in_edges g1 n);
                         g3 = foldl (\<lambda>g edge. AddEdge g new_node (e_src_output edge) (e_dst edge)
                                                  (e_dst_input edge)) g2 (out_edges g2 n)
                     in (OK, RemoveNode g3 n)))))"

definition rewrite_symbolic_gradient ::
  "Node \<Rightarrow> FunctionLibraryDefinition \<Rightarrow> string \<Rightarrow> Status \<times> FunctionLibraryDefinition" where
  "rewrite_symbolic_gradient node fld rewritten_function_name =
     (case GetNodeAttr (nd_attr (n_def node)) kFuncAttr of
        (Error c m, _) \<Rightarrow> (Error c m, fld)
      | (OK, func_nm, func_attrs) \<Rightarrow>
          (let gradient_def = \<lparr>function_name = func_nm, gradient_func = rewritten_function_name\<rparr>;
               original_grad_func = FindGradient fld func_nm
           in if original_grad_func = [] then
                (case AddGradientDef fld gradient_def of
                   (Error c m, fld') \<Rightarrow> (Error c m, fld')
                 | (OK, fld') \<Rightarrow> (OK, fld'))
              else if original_grad_func \<noteq> rewritten_function_name then
                (case ReplaceGradient fld gradient_def of
                   (Error c m, fld') \<Rightarrow> (Error c m, fld')
                 | (OK, fld') \<Rightarrow> (OK, fld'))
              else (OK, fld)))"

definition set_node :: "Graph \<Rightarrow> nat \<Rightarrow> Node \<Rightarrow> Graph" where
  "set_node g n node = g\<lparr>g_nodes := map (\<lambda>p. if fst p = n then (n, node) else p) (g_nodes g)\<rparr>"

definition rewrite_function_attr :: "Graph \<Rightarrow> nat \<Rightarrow> Node \<Rightarrow> string \<Rightarrow> string \<Rightarrow> Status \<times> Graph" where
  "rewrite_function_attr graph n node attr_name rewritten_function_name =
     (case GetNodeAttr (nd_attr (n_def node)) attr_name of
        (Error c m, _) \<Rightarrow> (Error c m, graph)
      | (OK, func_nm, func_attrs) \<Rightarrow>
          (let cleared = filter (\<lambda>p. fst p \<noteq> attr_name) (nd_attr (n_def node));
               added = cleared @ [(attr_name, AttrFunc rewritten_function_name func_attrs)]
           in (OK, set_node graph n (node\<lparr>n_def := (n_def node)\<lparr>nd_attr := added\<rparr>\<rparr>))))"

text \<open>
  \<open>RewriteAssociatedFunction\<close> is given a node of the graph; a \<open>Node*\<close> that is not
  in the graph is outside the contract of the source and is reported as an internal
  error here. The graph and the library it writes to are returned with the status.
\<close>

definition RewriteAssociatedFunction ::
  "OpRegistry \<Rightarrow> finalizer \<Rightarrow> Graph \<Rightarrow> nat \<Rightarrow> FunctionLibraryDefinition \<Rightarrow> AssociatedFunctionInfo \<Rightarrow>
   string \<Rightarrow> Status \<times> Graph \<times> FunctionLibraryDefinition" where
  "RewriteAssociatedFunction op_registry finalize graph n fld associated_function
       rewritten_function_name =
     (case node_by_id graph n of
        None \<Rightarrow> (Error INTERNAL ''node is not in the graph'', graph, fld)
      | Some node \<Rightarrow>
          (case afi_type associated_function of
             kFunctionCallNode \<Rightarrow>
               (let (s, g') = rewrite_function_call_node op_registry finalize graph n node fld
                                rewritten_function_name
                in (s, g', fld))
           | kSymbolicGradient \<Rightarrow>
               (let (s, fld') = rewrite_symbolic_gradient node fld rewritten_function_name
                in (s, graph, fld'))
           | kFunctionAttr \<Rightarrow>
               (let (s, g') = rewrite_function_attr graph n node (afi_attr_name associated_function)
                                rewritten_function_name
                in (s, g', fld))))"

section \<open>CachedFunctionHandles\<close>

text \<open>
  The function runtime behind the cache is a collaborator with a state of its own
  (\<open>'rt\<close>): \<open>Instantiate\<close> and \<open>ReleaseHandle\<close> return a status and the next state.
  \<open>Canonicalize\<close> and \<open>Status::Update\<close> are outside the file as well and are the
  parameters \<open>canonicalize\<close> and \<open>update\<close>.
\<close>

type_synonym Handle = nat

record 'rt FunctionLibraryRuntime =
  Instantiate :: "string \<Rightarrow> AttrValueMap \<Rightarrow> 'rt \<Rightarrow> Status \<times> Handle \<times> 'rt"
  ReleaseHandle :: "Handle \<Rightarrow> 'rt \<Rightarrow> Status \<times> 'rt"

definition GetOrInstantiate ::
  "hash_order \<Rightarrow> (string \<Rightarrow> AttrValueMap \<Rightarrow> string) \<Rightarrow> 'rt FunctionLibraryRuntime \<Rightarrow> string \<Rightarrow>
   AttrValueMap \<Rightarrow> Handle unordered_map \<Rightarrow> 'rt \<Rightarrow> Status \<times> Handle \<times> Handle unordered_map \<times> 'rt" where
  "GetOrInstantiate h canonicalize flr func_nm attrs handles rt =
     (let canonicalized_name = canonicalize func_nm attrs in
      case um_find handles canonicalized_name of
        Some handle \<Rightarrow> (OK, handle, handles, rt)
      | None \<Rightarrow>
          (case Instantiate flr func_nm attrs rt of
             (Error c m, handle, rt') \<Rightarrow> (Error c m, handle, handles, rt')
           | (OK, handle, rt') \<Rightarrow> (OK, handle, um_assign h canonicalized_name handle handles, rt')))"

fun release_loop ::
  "(Status \<Rightarrow> Status \<Rightarrow> Status) \<Rightarrow> 'rt FunctionLibraryRuntime \<Rightarrow> Handle unordered_map \<Rightarrow> Status \<Rightarrow> 'rt \<Rightarrow>
   Status \<times> 'rt" where
  "release_loop update flr [] result rt = (result, rt)"
| "release_loop update flr (iter # rest) result rt =
     (let (s, rt') = ReleaseHandle flr (snd iter) rt
      in release_loop update flr rest (update result s) rt')"

definition ReleaseAllHandles ::
  "(Status \<Rightarrow> Status \<Rightarrow> Status) \<Rightarrow> 'rt FunctionLibraryRuntime \<Rightarrow> Handle unordered_map \<Rightarrow> 'rt \<Rightarrow>
   Status \<times> Handle unordered_map \<times> 'rt" where
  "ReleaseAllHandles update flr handles rt =
     (let (result, rt') = release_loop update flr handles OK rt
      in (result, [], rt'))"

section \<open>The random seed counter\<close>

text \<open>
  \<open>InitialRandomSeed\<close> reads \<open>std::random_device\<close> once; the value read is the
  parameter \<open>rd\<close>. The function-local static counter is \<open>None\<close> before the first call
  of \<open>GetXLARandomSeed\<close>; \<open>fetch_add(2)\<close> returns the old value and stores the sum,
  which wraps around at 32 bits.
\<close>

definition InitialRandomSeed :: "32 word \<Rightarrow> 32 word" where
  "InitialRandomSeed rd = rd OR 1"

definition GetXLARandomSeed :: "32 word \<Rightarrow> 32 word option \<Rightarrow> 32 word \<times> 32 word option" where
  "GetXLARandomSeed rd counter =
     (let c = (case counter of None \<Rightarrow> InitialRandomSeed rd | Some c \<Rightarrow> c)
      in (c, Some (c + 2)))"

text \<open>The seeds returned by \<open>n\<close> successive calls.\<close>

fun seed_calls :: "32 word \<Rightarrow> 32 word option \<Rightarrow> nat \<Rightarrow> 32 word list" where
  "seed_calls rd counter 0 = []"
| "seed_calls rd counter (Suc n) =
     (let (s, counter') = GetXLARandomSeed rd counter in s # seed_calls rd counter' n)"

section \<open>Auxiliary definitions used in the statements\<close>

definition is_ok_or_invalid :: "Status \<Rightarrow> bool" where
  "is_ok_or_invalid s = (case s of OK \<Rightarrow> True | Error c m \<Rightarrow> c = INVALID_ARGUMENT)"

text \<open>
  The statuses of releasing a list of handles one after the other, none skipped, and the
  state of the runtime after all of them.
\<close>

fun release_results :: "'rt FunctionLibraryRuntime \<Rightarrow> Handle list \<Rightarrow> 'rt \<Rightarrow> Status list" where
  "release_results flr [] rt = []"
| "release_results flr (hdl # hs) rt =
     fst (ReleaseHandle flr hdl rt) # release_results flr hs (snd (ReleaseHandle flr hdl rt))"

definition release_state :: "'rt FunctionLibraryRuntime \<Rightarrow> Handle list \<Rightarrow> 'rt \<Rightarrow> 'rt" where
  "release_state flr hs rt = foldl (\<lambda>rt hdl. snd (ReleaseHandle flr hdl rt)) rt hs"

text \<open>The characters \<open>0\<close> to \<open>9\<close>.\<close>

definition is_digit :: "char \<Rightarrow> bool" where
  "is_digit c = (48 \<le> (of_char c :: nat) \<and> (of_char c :: nat) < 58)"

text \<open>
  The key of a feed in \<open>placeholder_info\<close> and in \<open>feed_remapping\<close>, the name given
  to its placeholder, and what the first loop of \<open>AddPlaceholdersForFeeds\<close> establishes
  for every entry: it holds a feed of the config, is filed under that feed's key and
  carries that feed's placeholder name.
\<close>

definition name_port :: "Feed \<Rightarrow> string" where
  "name_port f = TensorIdToString (feed_id f)"

definition placeholder_name_of :: "Feed \<Rightarrow> string" where
  "placeholder_name_of f =
     ''aot_feed_'' @ string_of_int (output_index (feed_id f)) @ ''/'' @ node_name (feed_id f)"

definition info_ok :: "Feed list \<Rightarrow> string \<times> PlaceholderInfo \<Rightarrow> bool" where
  "info_ok feeds e =
     (pi_feed (snd e) \<in> set feeds \<and> fst e = name_port (pi_feed (snd e)) \<and>
      pi_placeholder_name (snd e) = placeholder_name_of (pi_feed (snd e)))"

text \<open>
  The names marked as visited in \<open>node_by_name\<close>, and the node definition it holds for
  a name.
\<close>

definition visited_names :: "(bool \<times> NodeDef) unordered_map \<Rightarrow> string set" where
  "visited_names m = {k. \<exists>nd. um_find m k = Some (True, nd)}"

definition node_of :: "(bool \<times> NodeDef) unordered_map \<Rightarrow> string \<Rightarrow> NodeDef option" where
  "node_of m k = map_option snd (um_find m k)"

text \<open>
  The relation the traversal follows, for a set of cut pairs and a lookup of nodes by
  name: a name \<open>a\<close> leads to \<open>b\<close> when the node found under \<open>a\<close> has an input
  that parses to a (node, slot) pair with node \<open>b\<close> and that pair is not in the set.
\<close>

definition deps :: "parser \<Rightarrow> (string \<times> int) set \<Rightarrow> (string \<Rightarrow> NodeDef option) \<Rightarrow> (string \<times> string) set" where
  "deps parse feed_tensors lookup =
     {(a, b). \<exists>nd e. lookup a = Some nd \<and> e \<in> set (nd_input nd) \<and>
                     parse e \<notin> feed_tensors \<and> b = fst (parse e)}"

text \<open>
  The node a graph definition holds for a name: \<open>node_by_name\<close> is filled in node
  order, so for a repeated name the last node is kept. Where names are unique this is
  the node of that name. \<open>reached\<close> is the set of names the traversal of
  \<open>PruneGraphDefInto\<close> marks, with the cut pairs the function computes.
\<close>

fun node_lookup :: "NodeDef list \<Rightarrow> string \<Rightarrow> NodeDef option" where
  "node_lookup [] k = None"
| "node_lookup (n # ns) k =
     (case node_lookup ns k of
        Some n' \<Rightarrow> Some n'
      | None \<Rightarrow> if nd_name n = k then Some n else None)"

definition reached :: "parser \<Rightarrow> Config \<Rightarrow> GraphDef \<Rightarrow> string set" where
  "reached parse config g =
     (deps parse (feed_tensors_of config) (node_lookup (gd_node g)))\<^sup>* ``
       set (map (\<lambda>f. node_name (fetch_id f)) (fetch config))"

text \<open>
  What the pruned graph is required to hold, stated from the config alone. A (node,
  slot) pair is a feed tensor when some feed of the config declares exactly that node
  name and that output index. A name \<open>a\<close> depends on \<open>b\<close> when the node of name
  \<open>a\<close> has an input whose (node, slot) pair has node \<open>b\<close> and is not a feed
  tensor: the cut is made for the pair, not for the node. \<open>needed\<close> is the set of
  names reachable from the fetch targets along that relation, the targets included.
  \<open>slots_fit\<close> says that every declared output index is a 32-bit signed integer.
\<close>

definition is_feed_tensor :: "Config \<Rightarrow> string \<times> int \<Rightarrow> bool" where
  "is_feed_tensor config p =
     (\<exists>f \<in> set (feed config). node_name (feed_id f) = fst p \<and> output_index (feed_id f) = snd p)"

definition depends_on :: "parser \<Rightarrow> Config \<Rightarrow> GraphDef \<Rightarrow> (string \<times> string) set" where
  "depends_on parse config g =
     {(a, b). \<exists>nd e. node_lookup (gd_node g) a = Some nd \<and> e \<in> set (nd_input nd) \<and>
                     \<not> is_feed_tensor config (parse e) \<and> b = fst (parse e)}"

definition needed :: "parser \<Rightarrow> Config \<Rightarrow> GraphDef \<Rightarrow> string set" where
  "needed parse config g =
     (depends_on parse config g)\<^sup>* `` set (map (\<lambda>f. node_name (fetch_id f)) (fetch config))"


text \<open>
  The second loop of \<open>AddPlaceholdersForFeeds\<close> examines one entry per distinct
  \<open>name:port\<close> string, in increasing order of that string. \<open>last_feed_for\<close> is the
  feed an entry holds: the last feed of the config with that string. A feed resolves
  when it declares a data type, or its node is in the graph and the type of the fed
  output can be inferred from it. \<open>entry_status\<close> is the status of one iteration of
  the loop body.
\<close>

fun last_feed_for :: "Feed list \<Rightarrow> string \<Rightarrow> Feed option" where
  "last_feed_for [] k = None"
| "last_feed_for (f # fs) k =
     (case last_feed_for fs k of
        Some f' \<Rightarrow> Some f'
      | None \<Rightarrow> if TensorIdToString (feed_id f) = k then Some f else None)"

definition resolves :: "OpRegistry \<Rightarrow> GraphDef \<Rightarrow> Feed \<Rightarrow> bool" where
  "resolves op_registry g f =
     (feed_type f \<noteq> DT_INVALID \<or>
      (case node_lookup (gd_node g) (node_name (feed_id f)) of
         None \<Rightarrow> False
       | Some nd \<Rightarrow> fst (infer_data_type op_registry (gd_versions g) nd f) = OK))"

definition entry_status :: "OpRegistry \<Rightarrow> VersionDef \<Rightarrow> NodeDef unordered_map \<Rightarrow> PlaceholderInfo \<Rightarrow> Status" where
  "entry_status op_registry versions name_to_node info =
     (case um_find name_to_node (node_name (feed_id (pi_feed info))) of
        None \<Rightarrow> NotFound [''Can't find feed node: '', TensorIdToString (feed_id (pi_feed info))]
      | Some existing \<Rightarrow>
          if feed_type (pi_feed info) \<noteq> DT_INVALID then OK
          else fst (infer_data_type op_registry versions existing (pi_feed info)))"

text \<open>
  The invariant of a graph (section 3 of the specification): both endpoints of every
  edge are nodes of the graph, and node ids are below the id counter. The edges incident
  to a node form a multiset; \<open>retarget n new\<close> changes the endpoint \<open>n\<close> of an edge
  to \<open>new\<close> and nothing else; a self-loop is an edge from a node to itself.
\<close>

definition wf_graph :: "Graph \<Rightarrow> bool" where
  "wf_graph g =
     ((\<forall>e \<in> set (g_edges g). e_src e \<in> fst ` set (g_nodes g) \<and> e_dst e \<in> fst ` set (g_nodes g)) \<and>
      (\<forall>p \<in> set (g_nodes g). fst p < g_num_node_ids g))"

definition incident :: "Graph \<Rightarrow> nat \<Rightarrow> Edge multiset" where
  "incident g n = mset (filter (\<lambda>e. e_src e = n \<or> e_dst e = n) (g_edges g))"

definition retarget :: "nat \<Rightarrow> nat \<Rightarrow> Edge \<Rightarrow> Edge" where
  "retarget n new e =
     e\<lparr>e_src := (if e_src e = n then new else e_src e),
       e_dst := (if e_dst e = n then new else e_dst e)\<rparr>"

definition has_self_loop :: "Graph \<Rightarrow> nat \<Rightarrow> bool" where
  "has_self_loop g n = (\<exists>e \<in> set (g_edges g). e_src e = n \<and> e_dst e = n)"

section \<open>Concrete inputs\<close>

text \<open>A node with two function-valued attributes whose operation is named \<open>F\<close>.\<close>

definition while_node :: Node where
  "while_node =
     \<lparr>n_def = \<lparr>nd_name = ''loop'', nd_op = ''F'', nd_input = [], nd_device = [],
               nd_attr = [(''body'', AttrFunc ''F'' []), (''T'', AttrType 3),
                          (''cond'', AttrFunc ''G'' [])]\<rparr>,
      n_props = \<lparr>input_types = [], output_types = []\<rparr>,
      n_assigned_device_name = []\<rparr>"

text \<open>
  A runtime that logs every handle it is asked to release and fails on handle 2, and an
  update of statuses that keeps the first error.
\<close>

definition logging_runtime :: "Handle list FunctionLibraryRuntime" where
  "logging_runtime =
     \<lparr>Instantiate = (\<lambda>fn attrs rt. (OK, length rt, rt)),
      ReleaseHandle =
        (\<lambda>hdl rt. (if hdl = 2 then Error NOT_FOUND ''no such handle'' else OK, rt @ [hdl]))\<rparr>"

definition keep_first :: "Status \<Rightarrow> Status \<Rightarrow> Status" where
  "keep_first a b = (case a of OK \<Rightarrow> b | Error c m \<Rightarrow> Error c m)"

text \<open>Two iteration orders of an unordered map: fresh keys first, fresh keys last.\<close>

definition front_order :: hash_order where
  "front_order k ks = 0"

definition back_order :: hash_order where
  "back_order k ks = length ks"

text \<open>A registry in which every node builds, with two outputs of types 3 and 4.\<close>

definition simple_registry :: OpRegistry where
  "simple_registry =
     \<lparr>AddDefaultAttrs = (\<lambda>v nd. (OK, nd)),
      BuildNode = (\<lambda>v nd. (OK, \<lparr>input_types = [], output_types = [3, 4]\<rparr>)),
      BaseType = (\<lambda>t. t)\<rparr>"

text \<open>
  Modelled from the spec: \<open>ParseTensorName\<close> and \<open>TensorId::ToString\<close> are outside
  the file. Section 3 gives the canonical form \<open><node_name>:<slot>\<close>; an input without
  a slot names slot 0 and \<open>^name\<close> is a control input. These two functions are used
  for concrete inputs only: the general statements hold for every parser and printer.
\<close>

fun digits_value :: "string \<Rightarrow> nat \<Rightarrow> nat" where
  "digits_value [] acc = acc"
| "digits_value (c # cs) acc = digits_value cs (10 * acc + (of_char c - 48))"

definition simple_parse :: parser where
  "simple_parse s =
     (let ds = takeWhile is_digit (rev s); rest = dropWhile is_digit (rev s) in
      if ds \<noteq> [] \<and> length rest > 1 \<and> hd rest = CHR '':'' then
        (rev (tl rest), int (digits_value (rev ds) 0))
      else if s \<noteq> [] \<and> hd s = CHR ''^'' then (tl s, kControlSlot)
      else (s, 0))"

definition simple_to_string :: printer where
  "simple_to_string p =
     (if snd p = kControlSlot then CHR ''^'' # fst p else fst p @ '':'' @ string_of_int (snd p))"

text \<open>Feeds, fetches, nodes and graph definitions with the fields that do not matter fixed.\<close>

definition no_shape :: TensorShapeProto where
  "no_shape = \<lparr>dim = [], unknown_rank = False\<rparr>"

definition mk_feed :: "string \<Rightarrow> int \<Rightarrow> DataType \<Rightarrow> Feed" where
  "mk_feed n i t =
     \<lparr>feed_id = \<lparr>node_name = n, output_index = i\<rparr>, feed_shape = no_shape, feed_name = [],
      feed_type = t\<rparr>"

definition mk_fetch :: "string \<Rightarrow> int \<Rightarrow> Fetch" where
  "mk_fetch n i = \<lparr>fetch_id = \<lparr>node_name = n, output_index = i\<rparr>, fetch_name = []\<rparr>"

definition mk_node :: "string \<Rightarrow> string list \<Rightarrow> NodeDef" where
  "mk_node n ins = \<lparr>nd_name = n, nd_op = ''Op'', nd_input = ins, nd_device = [], nd_attr = []\<rparr>"

definition mk_graph :: "NodeDef list \<Rightarrow> GraphDef" where
  "mk_graph ns = \<lparr>gd_node = ns, gd_versions = \<lparr>producer = 0, min_consumer = 0\<rparr>, gd_library = []\<rparr>"

text \<open>
  A graph with the single node \<open>A\<close>, and configs that feed \<open>Z:0\<close>, which is not in
  it: one where the other feed \<open>A:5\<close> has no type and no such output, one where the
  other feed \<open>A:0\<close> has no type and its type can be inferred.
\<close>

definition cx_config :: Config where
  "cx_config = \<lparr>feed = [mk_feed ''Z'' 0 1, mk_feed ''A'' 5 DT_INVALID], fetch = [mk_fetch ''A'' 0]\<rparr>"

definition cx_graph :: GraphDef where
  "cx_graph = mk_graph [mk_node ''A'' []]"

definition infer_config :: Config where
  "infer_config =
     \<lparr>feed = [mk_feed ''A'' 0 DT_INVALID, mk_feed ''Z'' 0 1], fetch = [mk_fetch ''A'' 0]\<rparr>"

text \<open>A config whose feeds are not listed in the order of their keys, on a graph of three nodes.\<close>

definition det_config :: Config where
  "det_config = \<lparr>feed = [mk_feed ''B'' 0 1, mk_feed ''A'' 1 DT_INVALID], fetch = [mk_fetch ''C'' 0]\<rparr>"

definition det_graph :: GraphDef where
  "det_graph = mk_graph [mk_node ''A'' [], mk_node ''B'' [], mk_node ''C'' [''A:1'', ''B'']]"

text \<open>A builder that accepts everything, and a gradient node for the function \<open>foo\<close>.\<close>

definition simple_finalize :: finalizer where
  "simple_finalize fld b =
     (OK, \<lparr>nd_name = ndb_name b, nd_op = ndb_op b, nd_input = map fst (ndb_inputs b),
           nd_device = ndb_device b, nd_attr = ndb_attrs b\<rparr>)"

definition grad_node :: Node where
  "grad_node =
     \<lparr>n_def = \<lparr>nd_name = ''g'', nd_op = ''SymbolicGradient'', nd_input = [], nd_device = [],
               nd_attr = [(''f'', AttrFunc ''foo'' [])]\<rparr>,
      n_props = \<lparr>input_types = [], output_types = []\<rparr>,
      n_assigned_device_name = []\<rparr>"

definition grad_graph :: Graph where
  "grad_graph =
     \<lparr>g_nodes = [(0, grad_node)], g_edges = [], g_num_node_ids = 1,
      g_versions = \<lparr>producer = 0, min_consumer = 0\<rparr>\<rparr>"

definition grad_library :: FunctionLibraryDefinition where
  "grad_library = \<lparr>fld_functions = [''foo''], fld_func_grad = Map.empty\<rparr>"

text \<open>
  A graph in which \<open>C\<close> reads \<open>B\<close> and slot 1 of \<open>A\<close>, \<open>B\<close> reads slot 0 of
  \<open>A\<close>, \<open>A\<close> reads \<open>E\<close>, and \<open>D\<close> is read by nothing; slot 0 of \<open>A\<close> is
  fed and \<open>C\<close> is fetched.
\<close>

definition pr_graph :: GraphDef where
  "pr_graph =
     mk_graph [mk_node ''A'' [''E''], mk_node ''D'' [''A''], mk_node ''E'' [],
               mk_node ''B'' [''A:0''], mk_node ''C'' [''B'', ''A:1'']]"

definition pr_config :: Config where
  "pr_config = \<lparr>feed = [mk_feed ''A'' 0 1], fetch = [mk_fetch ''C'' 0]\<rparr>"





text \<open>
  A graph of one node with an edge from its output 0 to its own input 0, and a chain
  \<open>a \<rightarrow> b \<rightarrow> c\<close> with a data and a control edge from \<open>a\<close> to \<open>b\<close> and two
  data edges from \<open>b\<close> to \<open>c\<close>.
\<close>

definition loop_graph :: Graph where
  "loop_graph =
     \<lparr>g_nodes = [(0, \<lparr>n_def = mk_node ''n'' [''n''],
                      n_props = \<lparr>input_types = [3], output_types = [3, 4]\<rparr>,
                      n_assigned_device_name = []\<rparr>)],
      g_edges = [\<lparr>e_src = 0, e_src_output = 0, e_dst = 0, e_dst_input = 0\<rparr>],
      g_num_node_ids = 1,
      g_versions = \<lparr>producer = 0, min_consumer = 0\<rparr>\<rparr>"

definition chain_graph :: Graph where
  "chain_graph =
     \<lparr>g_nodes = [(0, \<lparr>n_def = mk_node ''a'' [], n_props = \<lparr>input_types = [], output_types = [3, 4]\<rparr>,
                      n_assigned_device_name = []\<rparr>),
                 (1, \<lparr>n_def = mk_node ''b'' [''a:1'', ''^a''],
                      n_props = \<lparr>input_types = [4], output_types = [3, 4]\<rparr>,
                      n_assigned_device_name = []\<rparr>),
                 (2, \<lparr>n_def = mk_node ''c'' [''b'', ''b''],
                      n_props = \<lparr>input_types = [3, 3], output_types = [3, 4]\<rparr>,
                      n_assigned_device_name = []\<rparr>)],
      g_edges = [\<lparr>e_src = 0, e_src_output = 1, e_dst = 1, e_dst_input = 0\<rparr>,
                 \<lparr>e_src = 0, e_src_output = - 1, e_dst = 1, e_dst_input = - 1\<rparr>,
                 \<lparr>e_src = 1, e_src_output = 0, e_dst = 2, e_dst_input = 0\<rparr>,
                 \<lparr>e_src = 1, e_src_output = 0, e_dst = 2, e_dst_input = 1\<rparr>],
      g_num_node_ids = 3,
      g_versions = \<lparr>producer = 0, min_consumer = 0\<rparr>\<rparr>"

chapter \<open>Properties\<close>

section \<open>Properties of ValidateConfig\<close>


lemma InvalidArgument_code: "InvalidArgument ps = Error INVALID_ARGUMENT (concat ps)"
  by (simp add: InvalidArgument_def)

lemma ValidateTensorId_kind: "is_ok_or_invalid (ValidateTensorId t)"
  by (simp add: ValidateTensorId_def is_ok_or_invalid_def InvalidArgument_def)

lemma IsValidShape_kind: "is_ok_or_invalid (IsValidShape t)"
  by (simp add: IsValidShape_def is_ok_or_invalid_def InvalidArgument_def)

lemma CheckNameDuplicates_kind: "is_ok_or_invalid (fst (CheckNameDuplicates k n ns))"
  by (simp add: CheckNameDuplicates_def is_ok_or_invalid_def InvalidArgument_def split: prod.splits)

lemma conflicts_loop_kind: "is_ok_or_invalid (conflicts_loop k ns xs)"
  by (induction xs) (simp_all add: is_ok_or_invalid_def InvalidArgument_def Let_def)

lemma validate_feeds_kind: "validate_feeds fs ns = (Error c m, ns') \<Longrightarrow> c = INVALID_ARGUMENT"
proof (induction fs arbitrary: ns)
  case Nil
  then show ?case by simp
next
  case (Cons f fs)
  have a: "is_ok_or_invalid (ValidateTensorId (feed_id f))" by (rule ValidateTensorId_kind)
  have b: "is_ok_or_invalid (IsValidShape (feed_shape f))" by (rule IsValidShape_kind)
  have c: "is_ok_or_invalid (fst (CheckNameDuplicates ''feed'' (feed_name f) ns))"
    by (rule CheckNameDuplicates_kind)
  from Cons.prems a b c show ?case
    by (auto simp: is_ok_or_invalid_def split: Status.splits prod.splits dest: Cons.IH)
qed

lemma validate_fetches_kind: "validate_fetches fs ns = (Error c m, ns') \<Longrightarrow> c = INVALID_ARGUMENT"
proof (induction fs arbitrary: ns)
  case Nil
  then show ?case by simp
next
  case (Cons f fs)
  have a: "is_ok_or_invalid (ValidateTensorId (fetch_id f))" by (rule ValidateTensorId_kind)
  have c: "is_ok_or_invalid (fst (CheckNameDuplicates ''fetch'' (fetch_name f) ns))"
    by (rule CheckNameDuplicates_kind)
  from Cons.prems a c show ?case
    by (auto simp: is_ok_or_invalid_def split: Status.splits prod.splits dest: Cons.IH)
qed

text \<open>
  Claim C9. For every config whose fetch sequence is empty, \<open>ValidateConfig\<close> returns
  an \<open>InvalidArgument\<close> error, whatever the feeds contain: either the empty-fetch
  check fires or an earlier check does, and every check fails with \<open>InvalidArgument\<close>.
\<close>

theorem ValidateConfig_empty_fetch:
  assumes "fetch config = []"
  shows "\<exists>msg. ValidateConfig config = Error INVALID_ARGUMENT msg"
proof -
  have a: "\<And>c m ns'. validate_feeds (feed config) [] = (Error c m, ns') \<Longrightarrow> c = INVALID_ARGUMENT"
    by (rule validate_feeds_kind)
  have b: "\<And>ns. is_ok_or_invalid (CheckFeedFetchNameConflicts ''feed'' ns)"
    by (simp add: CheckFeedFetchNameConflicts_def conflicts_loop_kind)
  have c: "CheckFeedFetchNameConflicts ''fetch'' [] = OK"
    by (simp add: CheckFeedFetchNameConflicts_def)
  show ?thesis using a b[of "snd (validate_feeds (feed config) [])"] c assms
    by (auto simp: ValidateConfig_def is_ok_or_invalid_def InvalidArgument_def
        split: Status.splits prod.splits)
qed

theorem ValidateConfig_empty_fetch_witness:
  "fetch \<lparr>feed = [], fetch = []\<rparr> = [] \<and>
   (\<exists>msg. ValidateConfig \<lparr>feed = [], fetch = []\<rparr> = Error INVALID_ARGUMENT msg)"
  using ValidateConfig_empty_fetch [of "\<lparr>feed = [], fetch = []\<rparr>"] by simp

section \<open>Properties of the random seed counter\<close>

lemma seed_calls_nth:
  "i < n \<Longrightarrow> seed_calls rd (Some c) n ! i = c + 2 * of_nat i"
proof (induction n arbitrary: c i)
  case 0 then show ?case by simp
next
  case (Suc n)
  show ?case
  proof (cases i)
    case 0 then show ?thesis by (simp add: GetXLARandomSeed_def Let_def)
  next
    case (Suc k)
    with Suc.prems have "k < n" by simp
    from Suc.IH[OF this, of "c + 2"] Suc show ?thesis
      by (simp add: GetXLARandomSeed_def Let_def algebra_simps)
  qed
qed

lemma seed_calls_None:
  "seed_calls rd None (Suc n) = InitialRandomSeed rd # seed_calls rd (Some (InitialRandomSeed rd + 2)) n"
  by (simp add: GetXLARandomSeed_def Let_def)

lemma seed_calls_None_nth:
  "i < n \<Longrightarrow> seed_calls rd None n ! i = InitialRandomSeed rd + 2 * of_nat i"
proof (cases n)
  case 0 then show "i < n \<Longrightarrow> ?thesis" by simp
next
  case (Suc m)
  assume "i < n"
  show ?thesis
  proof (cases i)
    case 0 then show ?thesis using Suc by (simp add: GetXLARandomSeed_def Let_def)
  next
    case (Suc k)
    then have "k < m" using \<open>i < n\<close> \<open>n = Suc m\<close> by simp
    from seed_calls_nth[OF this, of rd "InitialRandomSeed rd + 2"] Suc \<open>n = Suc m\<close>
    show ?thesis by (simp add: GetXLARandomSeed_def Let_def algebra_simps)
  qed
qed

lemma length_seed_calls: "length (seed_calls rd c n) = n"
  by (induction n arbitrary: c) (simp_all add: GetXLARandomSeed_def Let_def split: option.splits)

lemma odd_seed: "odd (InitialRandomSeed rd + 2 * k)"
  by (simp add: InitialRandomSeed_def even_or_iff)

lemma two_mult_neq0:
  assumes "0 < d" "d < 2 ^ 31"
  shows "(2 :: 32 word) * of_nat d \<noteq> 0"
proof -
  have "unat ((2 :: 32 word) * of_nat d) = (2 * d) mod 2 ^ 32"
    by (simp add: unat_word_ariths unat_of_nat) (metis mod_mult_right_eq)
  also have "\<dots> = 2 * d" using assms by simp
  finally show ?thesis using assms by (metis unat_0 mult_eq_0_iff zero_neq_numeral less_numeral_extra(3))
qed

text \<open>
  Claim C8. The counter starts at the odd value \<open>rd OR 1\<close> and call number \<open>i\<close>
  returns that value plus \<open>2 * i\<close> modulo \<open>2 ^ 32\<close>. Hence every returned seed is
  odd and not zero, and two calls less than \<open>2 ^ 31\<close> apart return different seeds.
\<close>

theorem GetXLARandomSeed_odd_no_repeat:
  "(\<forall>i<n. seed_calls rd None n ! i = (rd OR 1) + 2 * of_nat i \<and>
            odd (seed_calls rd None n ! i) \<and> seed_calls rd None n ! i \<noteq> 0) \<and>
   (\<forall>i j. i < j \<and> j < n \<and> j - i < 2 ^ 31 \<longrightarrow>
            seed_calls rd None n ! i \<noteq> seed_calls rd None n ! j)"
proof (intro conjI allI impI)
  fix i assume "i < n"
  then show "seed_calls rd None n ! i = (rd OR 1) + 2 * of_nat i"
    by (simp add: seed_calls_None_nth InitialRandomSeed_def)
  from \<open>i < n\<close> show "odd (seed_calls rd None n ! i)"
    by (simp add: seed_calls_None_nth InitialRandomSeed_def even_or_iff)
  then show "seed_calls rd None n ! i \<noteq> 0"
    by auto
next
  fix i j assume h: "i < j \<and> j < n \<and> j - i < 2 ^ 31"
  then have i: "seed_calls rd None n ! i = InitialRandomSeed rd + 2 * of_nat i"
    and j: "seed_calls rd None n ! j = InitialRandomSeed rd + 2 * of_nat j"
    by (simp_all add: seed_calls_None_nth)
  have "j = i + (j - i)" using h by simp
  then have "(of_nat j :: 32 word) = of_nat i + of_nat (j - i)"
    by (metis of_nat_add)
  then have "seed_calls rd None n ! j = seed_calls rd None n ! i + 2 * of_nat (j - i)"
    using i j by (simp add: algebra_simps)
  moreover have "(2 :: 32 word) * of_nat (j - i) \<noteq> 0"
    using h by (intro two_mult_neq0) simp_all
  ultimately show "seed_calls rd None n ! i \<noteq> seed_calls rd None n ! j"
    by simp
qed

theorem GetXLARandomSeed_odd_no_repeat_witness:
  "(0::nat) < 2 \<and> (2::nat) < 3 \<and> (2::nat) - 0 < 2 ^ 31 \<and>
   seed_calls 6 None 3 = [7, 9, 11] \<and>
   odd (seed_calls 6 None 3 ! 2) \<and>
   seed_calls 6 None 3 ! 0 \<noteq> seed_calls 6 None 3 ! 2"
  using GetXLARandomSeed_odd_no_repeat [of 3 6]
  by (simp add: numeral_3_eq_3 GetXLARandomSeed_def InitialRandomSeed_def Let_def)

section \<open>Properties of GetAssociatedFunctions\<close>

lemma collect_function_attrs_eq:
  "collect_function_attrs attrs =
     map (\<lambda>iter. FunctionAttr (func_name (snd iter)) (func_attr (snd iter)) (fst iter))
       (filter (\<lambda>iter. has_func (snd iter)) attrs)"
  by (induction attrs) simp_all

text \<open>
  Claim C5. \<open>GetAssociatedFunctions\<close> returns entries of one shape only. When the
  node's operation is a function of the library the result is exactly one
  \<open>FunctionCall\<close> entry with that name and all attributes of the node, whatever the
  attributes hold; otherwise, when the operation is the gradient marker, exactly one
  \<open>SymbolicGradient\<close> entry; otherwise one \<open>FunctionAttr\<close> entry for each
  function-valued attribute, in the order of the attributes.
\<close>

theorem GetAssociatedFunctions_one_shape:
  "(Contains fld (nd_op (n_def node)) \<longrightarrow>
      GetAssociatedFunctions node fld =
        [FunctionCall (nd_op (n_def node)) (nd_attr (n_def node))]) \<and>
   (\<not> Contains fld (nd_op (n_def node)) \<and> nd_op (n_def node) = kGradientOp \<longrightarrow>
      GetAssociatedFunctions node fld =
        [SymbolicGradient (nd_op (n_def node)) (nd_attr (n_def node))]) \<and>
   (\<not> Contains fld (nd_op (n_def node)) \<and> nd_op (n_def node) \<noteq> kGradientOp \<longrightarrow>
      GetAssociatedFunctions node fld =
        map (\<lambda>iter. FunctionAttr (func_name (snd iter)) (func_attr (snd iter)) (fst iter))
          (filter (\<lambda>iter. has_func (snd iter)) (nd_attr (n_def node)))) \<and>
   (\<forall>a \<in> set (GetAssociatedFunctions node fld).
      \<forall>b \<in> set (GetAssociatedFunctions node fld). afi_type a = afi_type b)"
  by (auto simp: GetAssociatedFunctions_def Let_def collect_function_attrs_eq)

theorem GetAssociatedFunctions_one_shape_witness:
  "Contains \<lparr>fld_functions = [''F''], fld_func_grad = Map.empty\<rparr> (nd_op (n_def while_node)) \<and>
   GetAssociatedFunctions while_node \<lparr>fld_functions = [''F''], fld_func_grad = Map.empty\<rparr> =
     [FunctionCall ''F'' [(''body'', AttrFunc ''F'' []), (''T'', AttrType 3),
                          (''cond'', AttrFunc ''G'' [])]] \<and>
   \<not> Contains \<lparr>fld_functions = [], fld_func_grad = Map.empty\<rparr> (nd_op (n_def while_node)) \<and>
   nd_op (n_def while_node) \<noteq> kGradientOp \<and>
   GetAssociatedFunctions while_node \<lparr>fld_functions = [], fld_func_grad = Map.empty\<rparr> =
     [FunctionAttr ''F'' [] ''body'', FunctionAttr ''G'' [] ''cond'']"
  using GetAssociatedFunctions_one_shape [of "\<lparr>fld_functions = [''F''], fld_func_grad = Map.empty\<rparr>" while_node]
    GetAssociatedFunctions_one_shape [of "\<lparr>fld_functions = [], fld_func_grad = Map.empty\<rparr>" while_node]
  by (simp add: while_node_def Contains_def kGradientOp_def)

section \<open>Properties of ReleaseAllHandles\<close>

lemma release_loop_eq:
  "release_loop update flr handles result rt =
     (foldl update result (release_results flr (map snd handles) rt),
      release_state flr (map snd handles) rt)"
  by (induction handles arbitrary: result rt)
     (simp_all add: release_state_def split: prod.splits)

lemma foldl_update_ok:
  assumes "\<forall>s. update OK s = s" "\<forall>c m s. update (Error c m) s \<noteq> OK"
  shows "foldl update r ss = OK \<longleftrightarrow> r = OK \<and> (\<forall>s \<in> set ss. s = OK)"
proof (induction ss arbitrary: r)
  case Nil
  show ?case by simp
next
  case (Cons s ss)
  show ?case
  proof (cases r)
    case OK
    with assms Cons show ?thesis by auto
  next
    case (Error c m)
    with assms(2) obtain c' m' where "update r s = Error c' m'"
      by (cases "update r s") auto
    with Cons[of "update r s"] Error show ?thesis by simp
  qed
qed

text \<open>
  Claim C4. \<open>ReleaseAllHandles\<close> calls \<open>ReleaseHandle\<close> on every cached handle,
  whatever the earlier releases returned; the status it returns is the \<open>Update\<close> of
  all their statuses, starting from OK; the cache is empty afterwards in every case. For
  an \<open>Update\<close> that takes the other status when it is OK and stays an error once it is
  one, the result is OK exactly when every release succeeded.
\<close>

theorem ReleaseAllHandles_all_released:
  "ReleaseAllHandles update flr handles rt =
     (foldl update OK (release_results flr (map snd handles) rt), [],
      release_state flr (map snd handles) rt) \<and>
   length (release_results flr (map snd handles) rt) = length handles \<and>
   ((\<forall>s. update OK s = s) \<and> (\<forall>c m s. update (Error c m) s \<noteq> OK) \<longrightarrow>
      (fst (ReleaseAllHandles update flr handles rt) = OK \<longleftrightarrow>
         (\<forall>s \<in> set (release_results flr (map snd handles) rt). s = OK)))"
proof (intro conjI impI)
  show eq: "ReleaseAllHandles update flr handles rt =
     (foldl update OK (release_results flr (map snd handles) rt), [],
      release_state flr (map snd handles) rt)"
    by (simp add: ReleaseAllHandles_def release_loop_eq)
  show "length (release_results flr (map snd handles) rt) = length handles"
    by (induction handles arbitrary: rt) simp_all
  assume "(\<forall>s. update OK s = s) \<and> (\<forall>c m s. update (Error c m) s \<noteq> OK)"
  then show "fst (ReleaseAllHandles update flr handles rt) = OK \<longleftrightarrow>
         (\<forall>s \<in> set (release_results flr (map snd handles) rt). s = OK)"
    by (simp add: eq foldl_update_ok)
qed

theorem ReleaseAllHandles_all_released_witness:
  "(\<forall>s. keep_first OK s = s) \<and> (\<forall>c m s. keep_first (Error c m) s \<noteq> OK) \<and>
   ReleaseAllHandles keep_first logging_runtime [(''f'', 1), (''g'', 2), (''h'', 3)] [] =
     (Error NOT_FOUND ''no such handle'', [], [1, 2, 3]) \<and>
   release_results logging_runtime [1, 2, 3] [] = [OK, Error NOT_FOUND ''no such handle'', OK]"
  using ReleaseAllHandles_all_released
          [of keep_first logging_runtime "[(''f'', 1), (''g'', 2), (''h'', 3)]" "[]"]
  by (simp add: keep_first_def logging_runtime_def release_state_def)

section \<open>Rendering of integers and tensor ids\<close>

lemma digit_char_is_digit: "d < 10 \<Longrightarrow> is_digit (digit_char d)"
  by (simp add: is_digit_def digit_char_def)

lemma digit_char_inj: "a < 10 \<Longrightarrow> b < 10 \<Longrightarrow> digit_char a = digit_char b \<Longrightarrow> a = b"
proof -
  assume a: "a < 10" and b: "b < 10" and e: "digit_char a = digit_char b"
  have A: "(of_char (digit_char a) :: nat) = 48 + a" using a by (simp add: digit_char_def)
  have B: "(of_char (digit_char b) :: nat) = 48 + b" using b by (simp add: digit_char_def)
  have "(of_char (digit_char a) :: nat) = of_char (digit_char b)" using e by (rule arg_cong)
  then have "48 + a = 48 + b" unfolding A B .
  then show "a = b" by simp
qed

lemma string_of_nat_small: "n < 10 \<Longrightarrow> string_of_nat n = [digit_char n]"
  by (subst string_of_nat.simps) simp

lemma string_of_nat_large:
  "\<not> n < 10 \<Longrightarrow> string_of_nat n = string_of_nat (n div 10) @ [digit_char (n mod 10)]"
  by (subst string_of_nat.simps) simp

lemma string_of_nat_digits: "\<forall>c \<in> set (string_of_nat n). is_digit c"
proof (induction n rule: string_of_nat.induct)
  case (1 n)
  show ?case
  proof (cases "n < 10")
    case True
    then show ?thesis by (simp add: string_of_nat_small digit_char_is_digit)
  next
    case False
    from 1[OF False] have ih: "\<forall>c \<in> set (string_of_nat (n div 10)). is_digit c" .
    have "is_digit (digit_char (n mod 10))" by (rule digit_char_is_digit) simp
    with ih show ?thesis by (simp add: string_of_nat_large[OF False])
  qed
qed

lemma string_of_nat_nonempty: "string_of_nat n \<noteq> []"
  by (cases "n < 10") (simp_all add: string_of_nat_small string_of_nat_large)

lemma string_of_nat_inj: "string_of_nat a = string_of_nat b \<Longrightarrow> a = b"
proof (induction a arbitrary: b rule: string_of_nat.induct)
  case (1 a)
  show ?case
  proof (cases "a < 10")
    case True
    then have sa: "string_of_nat a = [digit_char a]" by (rule string_of_nat_small)
    show ?thesis
    proof (cases "b < 10")
      case bt: True
      then have "string_of_nat b = [digit_char b]" by (rule string_of_nat_small)
      with sa 1(2) have "digit_char a = digit_char b" by simp
      with True bt show ?thesis by (rule digit_char_inj)
    next
      case False
      then have "string_of_nat b = string_of_nat (b div 10) @ [digit_char (b mod 10)]"
        by (rule string_of_nat_large)
      with sa 1(2) have "string_of_nat (b div 10) = []" by simp
      with string_of_nat_nonempty show ?thesis by blast
    qed
  next
    case False
    then have sa: "string_of_nat a = string_of_nat (a div 10) @ [digit_char (a mod 10)]"
      by (rule string_of_nat_large)
    show ?thesis
    proof (cases "b < 10")
      case True
      then have "string_of_nat b = [digit_char b]" by (rule string_of_nat_small)
      with sa 1(2) have "string_of_nat (a div 10) = []" by simp
      with string_of_nat_nonempty show ?thesis by blast
    next
      case bf: False
      then have sb: "string_of_nat b = string_of_nat (b div 10) @ [digit_char (b mod 10)]"
        by (rule string_of_nat_large)
      from sa sb 1(2) have e1: "string_of_nat (a div 10) = string_of_nat (b div 10)"
        and e2: "digit_char (a mod 10) = digit_char (b mod 10)" by simp_all
      from 1(1)[OF False e1] have d: "a div 10 = b div 10" .
      have "a mod 10 < 10" "b mod 10 < 10" by simp_all
      from digit_char_inj[OF this e2] have m: "a mod 10 = b mod 10" .
      have "a = 10 * (a div 10) + a mod 10" by simp
      also have "\<dots> = 10 * (b div 10) + b mod 10" using d m by simp
      also have "\<dots> = b" by simp
      finally show ?thesis .
    qed
  qed
qed

lemma string_of_nat_hd_digit: "is_digit (hd (string_of_nat n))"
proof -
  have "hd (string_of_nat n) \<in> set (string_of_nat n)"
    using string_of_nat_nonempty by (rule hd_in_set)
  with string_of_nat_digits show ?thesis by blast
qed

lemma string_of_nat_not_minus: "string_of_nat n \<noteq> CHR ''-'' # s"
proof
  assume "string_of_nat n = CHR ''-'' # s"
  then have "hd (string_of_nat n) = CHR ''-''" by simp
  with string_of_nat_hd_digit[of n] show False by (simp add: is_digit_def)
qed

lemma string_of_int_inj:
  assumes e: "string_of_int a = string_of_int b"
  shows "a = b"
proof (cases "a < 0")
  case an: True
  show ?thesis
  proof (cases "b < 0")
    case True
    with an e have "string_of_nat (nat (- a)) = string_of_nat (nat (- b))"
      by (simp add: string_of_int_def)
    then have "nat (- a) = nat (- b)" by (rule string_of_nat_inj)
    with an True show ?thesis by simp
  next
    case False
    with an e have "string_of_nat (nat b) = CHR ''-'' # string_of_nat (nat (- a))"
      by (simp add: string_of_int_def)
    with string_of_nat_not_minus show ?thesis by blast
  qed
next
  case ap: False
  show ?thesis
  proof (cases "b < 0")
    case True
    with ap e have "string_of_nat (nat a) = CHR ''-'' # string_of_nat (nat (- b))"
      by (simp add: string_of_int_def)
    with string_of_nat_not_minus show ?thesis by blast
  next
    case False
    with ap e have "string_of_nat (nat a) = string_of_nat (nat b)"
      by (simp add: string_of_int_def)
    then have "nat a = nat b" by (rule string_of_nat_inj)
    with ap False show ?thesis by simp
  qed
qed

lemma is_digit_not_colon: "is_digit c \<Longrightarrow> c \<noteq> CHR '':''"
  by (auto simp: is_digit_def)

lemma string_of_int_no_colon: "CHR '':'' \<notin> set (string_of_int i)"
proof -
  have "\<forall>c \<in> set (string_of_nat n). c \<noteq> CHR '':''" for n
    using string_of_nat_digits is_digit_not_colon by blast
  then show ?thesis by (auto simp: string_of_int_def)
qed

lemma split_at_last_colon:
  assumes "x @ CHR '':'' # d = y @ CHR '':'' # e" "CHR '':'' \<notin> set d" "CHR '':'' \<notin> set e"
  shows "x = y \<and> d = e"
proof -
  have "rev (x @ CHR '':'' # d) = rev (y @ CHR '':'' # e)"
    using assms(1) by simp
  then have r: "rev d @ CHR '':'' # rev x = rev e @ CHR '':'' # rev y"
    by simp
  have "takeWhile (\<lambda>c. c \<noteq> CHR '':'') (rev d @ CHR '':'' # rev x) = rev d"
    using assms(2) by (subst takeWhile_append2) auto
  moreover have "takeWhile (\<lambda>c. c \<noteq> CHR '':'') (rev e @ CHR '':'' # rev y) = rev e"
    using assms(3) by (subst takeWhile_append2) auto
  ultimately have "rev d = rev e" using r by simp
  then have "d = e" by simp
  with assms(1) show ?thesis by simp
qed

lemma TensorIdToString_inj:
  assumes "TensorIdToString a = TensorIdToString b"
  shows "node_name a = node_name b \<and> output_index a = output_index b"
proof -
  from assms have "node_name a @ CHR '':'' # string_of_int (output_index a) =
      node_name b @ CHR '':'' # string_of_int (output_index b)"
    by (simp add: TensorIdToString_def)
  from split_at_last_colon[OF this string_of_int_no_colon string_of_int_no_colon]
  have "node_name a = node_name b" and "string_of_int (output_index a) = string_of_int (output_index b)"
    by simp_all
  then show ?thesis using string_of_int_inj by blast
qed

section \<open>Properties of the containers and of the first loop of AddPlaceholdersForFeeds\<close>

lemma in_fstI: "(a, b) \<in> set m \<Longrightarrow> a \<in> fst ` set m"
  by force

lemma map_of_um_replace:
  "map_of (um_replace k v m) x = (if x = k \<and> k \<in> fst ` set m then Some v else map_of m x)"
  by (induction m) (auto dest: in_fstI)

lemma map_of_insert_at:
  "k \<notin> fst ` set m \<Longrightarrow>
     map_of (take i m @ (k, v) # drop i m) x = (if x = k then Some v else map_of m x)"
proof (induction m arbitrary: i)
  case Nil
  show ?case by simp
next
  case (Cons a m)
  show ?case
  proof (cases i)
    case 0
    then show ?thesis by simp
  next
    case (Suc j)
    from Cons.prems have "k \<notin> fst ` set m" and "fst a \<noteq> k" by auto
    with Cons.IH[of j] Suc show ?thesis by (cases a) auto
  qed
qed

lemma um_find_um_assign:
  "um_find (um_assign h k v m) x = (if x = k then Some v else um_find m x)"
proof (cases "k \<in> fst ` set m")
  case True
  then show ?thesis by (simp add: um_find_def um_assign_def map_of_um_replace)
next
  case False
  from map_of_insert_at[OF this, of "h k (map fst m)" v x] False show ?thesis
    by (simp add: um_find_def um_assign_def Let_def del: map_of_append)
qed

lemma map_find_map_assign:
  "map_find (map_assign k v m) x = (if x = k then Some v else map_find m x)"
  unfolding map_find_def by (induction m) auto

lemma set_map_assign: "set (map_assign k v m) \<subseteq> insert (k, v) (set m)"
  by (induction m) (auto split: if_splits)

lemma keys_map_assign: "fst ` set (map_assign k v m) = insert k (fst ` set m)"
proof (induction m)
  case Nil
  show ?case by simp
next
  case (Cons a m)
  obtain k' v' where a: "a = (k', v')" by (cases a)
  show ?case unfolding a using Cons.IH by (simp add: insert_commute)
qed

lemma sorted_map_assign:
  "sorted_wrt (<) (map fst m) \<Longrightarrow> sorted_wrt (<) (map fst (map_assign k v m))"
proof (induction m)
  case Nil
  show ?case by simp
next
  case (Cons a m)
  obtain k' v' where a: "a = (k', v')" by (cases a)
  from Cons.prems a have s: "sorted_wrt (<) (map fst m)" and b: "\<forall>x \<in> fst ` set m. k' < x"
    by auto
  show ?case
  proof (cases "k < k'")
    case True
    with a Cons.prems b show ?thesis by (auto intro: less_trans)
  next
    case False
    show ?thesis
    proof (cases "k = k'")
      case True
      with a Cons.prems show ?thesis by simp
    next
      case ne: False
      with False have lt: "k' < k" by simp
      have "\<forall>x \<in> fst ` set (map_assign k v m). k' < x"
        using b lt by (simp add: keys_map_assign)
      with Cons.IH[OF s] a False ne show ?thesis by simp
    qed
  qed
qed

lemma collect_feeds_fst_indep:
  "fst (collect_feeds h1 fs info r1) = fst (collect_feeds h2 fs info r2)"
  by (induction fs arbitrary: info r1 r2) (simp_all add: Let_def)

lemma collect_feeds_remap_indep:
  "um_find r1 = um_find r2 \<Longrightarrow>
     um_find (snd (collect_feeds h1 fs info r1)) = um_find (snd (collect_feeds h2 fs info r2))"
proof (induction fs arbitrary: info r1 r2)
  case Nil
  then show ?case by simp
next
  case (Cons f fs)
  have "um_find (um_assign h1 k v r1) = um_find (um_assign h2 k v r2)" for k v
    using Cons.prems by (intro ext) (simp add: um_find_um_assign)
  then show ?case by (simp add: Let_def Cons.IH)
qed

lemma collect_feeds_sorted:
  "sorted_wrt (<) (map fst info) \<Longrightarrow>
     sorted_wrt (<) (map fst (fst (collect_feeds h fs info r)))"
  by (induction fs arbitrary: info r) (simp_all add: Let_def sorted_map_assign)

lemma collect_feeds_keys:
  "fst ` set (fst (collect_feeds h fs info r)) = fst ` set info \<union> name_port ` set fs"
  by (induction fs arbitrary: info r) (auto simp: Let_def keys_map_assign name_port_def)

lemma collect_feeds_ok:
  "\<forall>e \<in> set info. info_ok F e \<Longrightarrow> set fs \<subseteq> set F \<Longrightarrow>
     \<forall>e \<in> set (fst (collect_feeds h fs info r)). info_ok F e"
proof (induction fs arbitrary: info r)
  case Nil
  then show ?case by simp
next
  case (Cons f fs)
  let ?i = "\<lparr>pi_feed = f, pi_placeholder_name = placeholder_name_of f,
             pi_data_type = (case map_find info (name_port f) of
                               None \<Rightarrow> DT_INVALID | Some old \<Rightarrow> pi_data_type old)\<rparr>"
  have ok: "info_ok F (name_port f, ?i)"
    using Cons.prems(2) by (simp add: info_ok_def)
  have "\<forall>e \<in> set (map_assign (name_port f) ?i info). info_ok F e"
    using set_map_assign[of "name_port f" ?i info] ok Cons.prems(1) by auto
  from Cons.IH[OF this] Cons.prems(2) show ?case
    by (simp add: Let_def name_port_def placeholder_name_of_def)
qed

lemma collect_feeds_remap_other:
  "k \<notin> name_port ` set fs \<Longrightarrow>
     um_find (snd (collect_feeds h fs info r)) k = um_find r k"
  by (induction fs arbitrary: info r) (auto simp: Let_def um_find_um_assign name_port_def)

lemma collect_feeds_remap_value_all:
  "\<forall>f \<in> set fs.
     um_find (snd (collect_feeds h fs info r)) (name_port f) = Some (placeholder_name_of f)"
proof (induction fs arbitrary: info r)
  case Nil
  show ?case by simp
next
  case (Cons g fs)
  let ?info = "map_assign (name_port g)
      \<lparr>pi_feed = g, pi_placeholder_name = placeholder_name_of g,
       pi_data_type = (case map_find info (name_port g) of
                         None \<Rightarrow> DT_INVALID | Some old \<Rightarrow> pi_data_type old)\<rparr> info"
  let ?r = "um_assign h (name_port g) (placeholder_name_of g) r"
  have step: "collect_feeds h (g # fs) info r = collect_feeds h fs ?info ?r"
    by (simp add: Let_def name_port_def placeholder_name_of_def)
  show ?case
  proof
    fix f assume "f \<in> set (g # fs)"
    show "um_find (snd (collect_feeds h (g # fs) info r)) (name_port f) =
            Some (placeholder_name_of f)"
    proof (cases "name_port f \<in> name_port ` set fs")
      case True
      then obtain g' where g': "g' \<in> set fs" "name_port g' = name_port f" by auto
      from TensorIdToString_inj[of "feed_id g'" "feed_id f"] g'(2)
      have "placeholder_name_of g' = placeholder_name_of f"
        by (simp add: name_port_def placeholder_name_of_def)
      with Cons.IH[of ?info ?r] g' show ?thesis unfolding step by auto
    next
      case False
      with \<open>f \<in> set (g # fs)\<close> have fg: "f = g" by auto
      from collect_feeds_remap_other[OF False, of h ?info ?r] fg show ?thesis
        unfolding step by (simp add: um_find_um_assign)
    qed
  qed
qed

lemma build_name_to_node_indep:
  "um_find m1 = um_find m2 \<Longrightarrow>
     um_find (build_name_to_node h1 ns m1) = um_find (build_name_to_node h2 ns m2)"
proof (induction ns arbitrary: m1 m2)
  case Nil
  then show ?case by simp
next
  case (Cons n ns)
  have "um_find (um_assign h1 k v m1) = um_find (um_assign h2 k v m2)" for k v
    using Cons.prems by (intro ext) (simp add: um_find_um_assign)
  then show ?case by (simp add: Cons.IH)
qed

lemma build_name_to_node_None:
  "um_find (build_name_to_node h ns m) x = None \<longleftrightarrow>
     x \<notin> nd_name ` set ns \<and> um_find m x = None"
  by (induction ns arbitrary: m) (auto simp: um_find_um_assign)

lemma resolve_types_cong:
  "um_find a = um_find b \<Longrightarrow>
     resolve_types reg v a infos = resolve_types reg v b infos"
  by (induction infos) (auto split: option.splits prod.splits Status.splits)

section \<open>Properties of the type resolution loop\<close>

lemma digit_char_values:
  "digit_char 0 = CHR ''0''" "digit_char 1 = CHR ''1''" "digit_char 2 = CHR ''2''"
  "digit_char 3 = CHR ''3''" "digit_char 4 = CHR ''4''" "digit_char 5 = CHR ''5''"
  "digit_char 6 = CHR ''6''" "digit_char 7 = CHR ''7''" "digit_char 8 = CHR ''8''"
  "digit_char 9 = CHR ''9''" "digit_char (Suc 0) = CHR ''1''"
  by code_simp+

lemma resolve_types_fail:
  "\<exists>e \<in> set infos. um_find n2n (node_name (feed_id (pi_feed (snd e)))) = None \<Longrightarrow>
     fst (resolve_types reg v n2n infos) \<noteq> OK"
proof (induction infos)
  case Nil
  then show ?case by simp
next
  case (Cons a infos)
  obtain k i where a: "a = (k, i)" by (cases a)
  show ?case
  proof (cases "um_find n2n (node_name (feed_id (pi_feed i))) = None")
    case True
    then show ?thesis by (simp add: a NotFound_def)
  next
    case False
    with Cons.prems a have "\<exists>e \<in> set infos. um_find n2n (node_name (feed_id (pi_feed (snd e)))) = None"
      by auto
    from Cons.IH[OF this] False show ?thesis
      by (auto simp: a NotFound_def split: option.splits prod.splits Status.splits)
  qed
qed

lemma resolve_types_notfound:
  assumes "sorted_wrt (<) (map fst infos)" "K \<in> fst ` set infos"
    and "\<forall>e \<in> set infos. fst e = name_port (pi_feed (snd e))"
    and "\<forall>e \<in> set infos. fst e < K \<longrightarrow>
           um_find n2n (node_name (feed_id (pi_feed (snd e)))) \<noteq> None \<and>
           feed_type (pi_feed (snd e)) \<noteq> DT_INVALID"
    and "\<forall>e \<in> set infos. fst e = K \<longrightarrow>
           um_find n2n (node_name (feed_id (pi_feed (snd e)))) = None"
  shows "fst (resolve_types reg v n2n infos) = NotFound [''Can't find feed node: '', K]"
  using assms
proof (induction infos)
  case Nil
  then show ?case by simp
next
  case (Cons a infos)
  obtain k i where a: "a = (k, i)" by (cases a)
  show ?case
  proof (cases "k = K")
    case True
    with Cons.prems(3,5) a have "um_find n2n (node_name (feed_id (pi_feed i))) = None"
      and "TensorIdToString (feed_id (pi_feed i)) = K"
      by (auto simp: name_port_def)
    then show ?thesis by (simp add: a)
  next
    case False
    with Cons.prems(2) a have K: "K \<in> fst ` set infos" by auto
    with Cons.prems(1) a have "k < K" by auto
    with Cons.prems(4) a obtain existing where
      ex: "um_find n2n (node_name (feed_id (pi_feed i))) = Some existing"
      and ty: "feed_type (pi_feed i) \<noteq> DT_INVALID" by auto
    have "fst (resolve_types reg v n2n infos) = NotFound [''Can't find feed node: '', K]"
      using Cons.prems by (intro Cons.IH K) auto
    then show ?thesis
      by (auto simp: a ex ty NotFound_def split: prod.splits Status.splits)
  qed
qed

lemma resolve_types_keys:
  "resolve_types reg v n2n infos = (OK, infos') \<Longrightarrow> map fst infos' = map fst infos"
proof (induction infos arbitrary: infos')
  case Nil
  then show ?case by simp
next
  case (Cons a infos)
  obtain k i where a: "a = (k, i)" by (cases a)
  from Cons.prems show ?case
    by (auto simp: a NotFound_def split: option.splits prod.splits Status.splits dest: Cons.IH)
qed

lemma resolve_types_ok:
  "resolve_types reg v n2n infos = (OK, infos') \<Longrightarrow> \<forall>e \<in> set infos. info_ok F e \<Longrightarrow>
     \<forall>e \<in> set infos'. info_ok F e"
proof (induction infos arbitrary: infos')
  case Nil
  then show ?case by simp
next
  case (Cons a infos)
  obtain k i where a: "a = (k, i)" by (cases a)
  from Cons.prems(2) a have i: "info_ok F (k, i)" and rest: "\<forall>e \<in> set infos. info_ok F e"
    by auto
  from i have i': "info_ok F (k, i\<lparr>pi_data_type := dt\<rparr>)" for dt
    by (simp add: info_ok_def)
  from Cons.prems(1) obtain dt rest' where
    r: "resolve_types reg v n2n infos = (OK, rest')" and e: "infos' = (k, i\<lparr>pi_data_type := dt\<rparr>) # rest'"
    by (auto simp: a NotFound_def split: option.splits prod.splits Status.splits)
  from Cons.IH[OF r rest] i' e show ?case by simp
qed

section \<open>Properties of AddPlaceholdersForFeeds\<close>

lemmas eval_defs = mk_feed_def mk_fetch_def mk_node_def mk_graph_def no_shape_def front_order_def
  back_order_def simple_registry_def Let_def TensorIdToString_def string_of_int_def
  string_of_nat.simps digit_char_values um_find_def um_assign_def map_find_def
  NotFound_def InvalidArgument_def DT_INVALID_def

text \<open>
  Claim C3. The result of \<open>AddPlaceholdersForFeeds\<close> does not depend on the iteration
  order of the unordered maps it uses: for any two such orders \<open>h1\<close> and \<open>h2\<close> and
  the same config, registry, remapping and graph, the status and the resulting graph are
  equal and the two feed remappings hold the same entries. Every feed's key is remapped
  to the placeholder name built from its slot and node name, and on success the
  placeholders are appended to the graph in strictly increasing order of the feeds'
  \<open>name:port\<close> strings, one for each distinct string.
\<close>

theorem AddPlaceholdersForFeeds_deterministic:
  "fst (AddPlaceholdersForFeeds h1 parse to_string config reg remap g) =
     fst (AddPlaceholdersForFeeds h2 parse to_string config reg remap g) \<and>
   snd (snd (AddPlaceholdersForFeeds h1 parse to_string config reg remap g)) =
     snd (snd (AddPlaceholdersForFeeds h2 parse to_string config reg remap g)) \<and>
   um_find (fst (snd (AddPlaceholdersForFeeds h1 parse to_string config reg remap g))) =
     um_find (fst (snd (AddPlaceholdersForFeeds h2 parse to_string config reg remap g))) \<and>
   (\<forall>f \<in> set (feed config).
      um_find (fst (snd (AddPlaceholdersForFeeds h1 parse to_string config reg remap g)))
        (name_port f) = Some (placeholder_name_of f)) \<and>
   (fst (AddPlaceholdersForFeeds h1 parse to_string config reg remap g) = OK \<longrightarrow>
      (\<exists>infos. sorted_wrt (<) (map fst infos) \<and>
         fst ` set infos = name_port ` set (feed config) \<and>
         (\<forall>e \<in> set infos. info_ok (feed config) e) \<and>
         gd_node (snd (snd (AddPlaceholdersForFeeds h1 parse to_string config reg remap g))) =
           map (rewrite_node parse to_string infos)
             (gd_node g @ map (make_placeholder \<circ> snd) infos)))"
proof -
  let ?c1 = "collect_feeds h1 (feed config) [] remap"
  let ?c2 = "collect_feeds h2 (feed config) [] remap"
  let ?n1 = "build_name_to_node h1 (gd_node g) []"
  let ?n2 = "build_name_to_node h2 (gd_node g) []"
  let ?r1 = "resolve_types reg (gd_versions g) ?n1 (fst ?c1)"
  have c: "fst ?c2 = fst ?c1" by (rule collect_feeds_fst_indep)
  have rm: "um_find (snd ?c1) = um_find (snd ?c2)" by (rule collect_feeds_remap_indep) simp
  have "um_find ?n1 = um_find ?n2" by (rule build_name_to_node_indep) simp
  then have r: "resolve_types reg (gd_versions g) ?n2 (fst ?c1) = ?r1"
    by (rule resolve_types_cong[symmetric])
  obtain st infos0 where res1: "?r1 = (st, infos0)" by (cases ?r1)
  have res2: "resolve_types reg (gd_versions g) ?n2 (fst ?c2) = (st, infos0)"
    by (simp add: c r res1)
  have A1: "AddPlaceholdersForFeeds h1 parse to_string config reg remap g =
      (case st of
         Error c m \<Rightarrow> (Error c m, snd ?c1, g)
       | OK \<Rightarrow>
           (OK, snd ?c1, g\<lparr>gd_node := map (rewrite_node parse to_string infos0)
                                (gd_node g @ map (make_placeholder \<circ> snd) infos0)\<rparr>))"
    by (cases st) (simp_all add: AddPlaceholdersForFeeds_def Let_def split_beta res1)
  have A2: "AddPlaceholdersForFeeds h2 parse to_string config reg remap g =
      (case st of
         Error c m \<Rightarrow> (Error c m, snd ?c2, g)
       | OK \<Rightarrow>
           (OK, snd ?c2, g\<lparr>gd_node := map (rewrite_node parse to_string infos0)
                                (gd_node g @ map (make_placeholder \<circ> snd) infos0)\<rparr>))"
    by (cases st) (simp_all add: AddPlaceholdersForFeeds_def Let_def split_beta res2)
  have rm1: "fst (snd (AddPlaceholdersForFeeds h1 parse to_string config reg remap g)) = snd ?c1"
    unfolding A1 by (cases st) simp_all
  have rm2: "fst (snd (AddPlaceholdersForFeeds h2 parse to_string config reg remap g)) = snd ?c2"
    unfolding A2 by (cases st) simp_all
  have p1: "fst (AddPlaceholdersForFeeds h1 parse to_string config reg remap g) =
     fst (AddPlaceholdersForFeeds h2 parse to_string config reg remap g)"
    unfolding A1 A2 by (cases st) simp_all
  have p2: "snd (snd (AddPlaceholdersForFeeds h1 parse to_string config reg remap g)) =
     snd (snd (AddPlaceholdersForFeeds h2 parse to_string config reg remap g))"
    unfolding A1 A2 by (cases st) simp_all
  have p3: "um_find (fst (snd (AddPlaceholdersForFeeds h1 parse to_string config reg remap g))) =
     um_find (fst (snd (AddPlaceholdersForFeeds h2 parse to_string config reg remap g)))"
    unfolding rm1 rm2 by (rule rm)
  have p4: "\<forall>f \<in> set (feed config).
      um_find (fst (snd (AddPlaceholdersForFeeds h1 parse to_string config reg remap g)))
        (name_port f) = Some (placeholder_name_of f)"
    unfolding rm1 by (rule collect_feeds_remap_value_all)
  have p5: "\<exists>infos. sorted_wrt (<) (map fst infos) \<and>
         fst ` set infos = name_port ` set (feed config) \<and>
         (\<forall>e \<in> set infos. info_ok (feed config) e) \<and>
         gd_node (snd (snd (AddPlaceholdersForFeeds h1 parse to_string config reg remap g))) =
           map (rewrite_node parse to_string infos)
             (gd_node g @ map (make_placeholder \<circ> snd) infos)"
    if ok: "fst (AddPlaceholdersForFeeds h1 parse to_string config reg remap g) = OK"
  proof -
    from ok have "st = OK" unfolding A1 by (cases st) simp_all
    with res1 obtain infos where res: "?r1 = (OK, infos)" and i0: "infos0 = infos" by simp
    have keys: "map fst infos = map fst (fst ?c1)" using res by (rule resolve_types_keys)
    have "sorted_wrt (<) (map fst (fst ?c1))" by (rule collect_feeds_sorted) simp
    then have s: "sorted_wrt (<) (map fst infos)" by (simp add: keys)
    have "fst ` set (fst ?c1) = name_port ` set (feed config)"
      by (simp add: collect_feeds_keys)
    moreover have "fst ` set infos = set (map fst infos)" by simp
    moreover have "fst ` set (fst ?c1) = set (map fst (fst ?c1))" by simp
    ultimately have k: "fst ` set infos = name_port ` set (feed config)"
      using keys by metis
    have "\<forall>e \<in> set (fst ?c1). info_ok (feed config) e"
      by (rule collect_feeds_ok) simp_all
    with res have o: "\<forall>e \<in> set infos. info_ok (feed config) e" by (rule resolve_types_ok)
    have "gd_node (snd (snd (AddPlaceholdersForFeeds h1 parse to_string config reg remap g))) =
           map (rewrite_node parse to_string infos)
             (gd_node g @ map (make_placeholder \<circ> snd) infos)"
      unfolding A1 using \<open>st = OK\<close> i0 by simp
    with s k o show ?thesis by blast
  qed
  from p1 p2 p3 p4 p5 show ?thesis by blast
qed

theorem AddPlaceholdersForFeeds_deterministic_witness:
  "fst (AddPlaceholdersForFeeds front_order simple_parse simple_to_string det_config
          simple_registry [] det_graph) = OK \<and>
   AddPlaceholdersForFeeds front_order simple_parse simple_to_string det_config
          simple_registry [] det_graph =
     (OK, [(''A:1'', ''aot_feed_1/A''), (''B:0'', ''aot_feed_0/B'')],
      mk_graph [mk_node ''A'' [], mk_node ''B'' [],
                mk_node ''C'' [''aot_feed_1/A'', ''aot_feed_0/B''],
                \<lparr>nd_name = ''aot_feed_1/A'', nd_op = ''PlaceholderV2'', nd_input = [],
                 nd_device = [], nd_attr = [(''dtype'', AttrType 4), (''shape'', AttrShape no_shape)]\<rparr>,
                \<lparr>nd_name = ''aot_feed_0/B'', nd_op = ''PlaceholderV2'', nd_input = [],
                 nd_device = [], nd_attr = [(''dtype'', AttrType 1), (''shape'', AttrShape no_shape)]\<rparr>]) \<and>
   AddPlaceholdersForFeeds back_order simple_parse simple_to_string det_config
          simple_registry [] det_graph =
     (OK, [(''B:0'', ''aot_feed_0/B''), (''A:1'', ''aot_feed_1/A'')],
      snd (snd (AddPlaceholdersForFeeds front_order simple_parse simple_to_string det_config
          simple_registry [] det_graph)))"
proof -
  have e1: "AddPlaceholdersForFeeds front_order simple_parse simple_to_string det_config
          simple_registry [] det_graph =
     (OK, [(''A:1'', ''aot_feed_1/A''), (''B:0'', ''aot_feed_0/B'')],
      mk_graph [mk_node ''A'' [], mk_node ''B'' [],
                mk_node ''C'' [''aot_feed_1/A'', ''aot_feed_0/B''],
                \<lparr>nd_name = ''aot_feed_1/A'', nd_op = ''PlaceholderV2'', nd_input = [],
                 nd_device = [], nd_attr = [(''dtype'', AttrType 4), (''shape'', AttrShape no_shape)]\<rparr>,
                \<lparr>nd_name = ''aot_feed_0/B'', nd_op = ''PlaceholderV2'', nd_input = [],
                 nd_device = [], nd_attr = [(''dtype'', AttrType 1), (''shape'', AttrShape no_shape)]\<rparr>])"
    by (simp add: AddPlaceholdersForFeeds_def det_config_def det_graph_def eval_defs
      infer_data_type_def num_outputs_def output_type_def make_placeholder_def rewrite_node_def
      rewrite_input_def simple_parse_def simple_to_string_def is_digit_def kControlSlot_def)
  have e2: "fst (snd (AddPlaceholdersForFeeds back_order simple_parse simple_to_string det_config
          simple_registry [] det_graph)) = [(''B:0'', ''aot_feed_0/B''), (''A:1'', ''aot_feed_1/A'')]"
    by (simp add: AddPlaceholdersForFeeds_def det_config_def det_graph_def eval_defs
      infer_data_type_def num_outputs_def output_type_def)
  from AddPlaceholdersForFeeds_deterministic [of front_order simple_parse simple_to_string
          det_config simple_registry "[]" det_graph back_order]
  have t: "fst (AddPlaceholdersForFeeds back_order simple_parse simple_to_string det_config
          simple_registry [] det_graph) =
        fst (AddPlaceholdersForFeeds front_order simple_parse simple_to_string det_config
          simple_registry [] det_graph) \<and>
      snd (snd (AddPlaceholdersForFeeds back_order simple_parse simple_to_string det_config
          simple_registry [] det_graph)) =
        snd (snd (AddPlaceholdersForFeeds front_order simple_parse simple_to_string det_config
          simple_registry [] det_graph))"
    by simp
  show ?thesis using e1 e2 t by (auto simp: prod_eq_iff)
qed

section \<open>Properties of RewriteAssociatedFunction\<close>

text \<open>
  Claim C7. For a node of the graph whose attribute \<open>f\<close> holds a function, rewriting
  a \<open>SymbolicGradient\<close> info succeeds, returns the graph unchanged, and changes nothing
  in the library but the gradient registered for that function: it is set to the new name
  when none is registered and when a different one is registered, and the library is
  left as it is when the new name is registered already.
\<close>

theorem RewriteAssociatedFunction_SymbolicGradient:
  assumes "node_by_id graph n = Some node"
    and "GetNodeAttr (nd_attr (n_def node)) kFuncAttr = (OK, f, fattrs)"
    and "RewriteAssociatedFunction op_registry finalize graph n fld (SymbolicGradient nm attrs)
           rewritten_function_name = (s, graph', fld')"
  shows "s = OK \<and> graph' = graph \<and> fld_functions fld' = fld_functions fld \<and>
         (\<forall>x. x \<noteq> f \<longrightarrow> fld_func_grad fld' x = fld_func_grad fld x) \<and>
         (FindGradient fld f = [] \<longrightarrow>
            fld_func_grad fld' = (fld_func_grad fld)(f \<mapsto> rewritten_function_name)) \<and>
         (FindGradient fld f \<noteq> [] \<and> FindGradient fld f \<noteq> rewritten_function_name \<longrightarrow>
            fld_func_grad fld' = (fld_func_grad fld)(f \<mapsto> rewritten_function_name)) \<and>
         (FindGradient fld f \<noteq> [] \<and> FindGradient fld f = rewritten_function_name \<longrightarrow>
            fld' = fld)"
  using assms
  by (auto simp: RewriteAssociatedFunction_def rewrite_symbolic_gradient_def Let_def
      AddGradientDef_def ReplaceGradient_def FindGradient_def split: option.splits if_splits)

theorem RewriteAssociatedFunction_SymbolicGradient_witness:
  "node_by_id grad_graph 0 = Some grad_node \<and>
   GetNodeAttr (nd_attr (n_def grad_node)) kFuncAttr = (OK, ''foo'', []) \<and>
   FindGradient grad_library ''foo'' = [] \<and>
   fst (RewriteAssociatedFunction simple_registry simple_finalize grad_graph 0 grad_library
          (SymbolicGradient ''SymbolicGradient'' []) ''foo_rewritten'') = OK \<and>
   fst (snd (RewriteAssociatedFunction simple_registry simple_finalize grad_graph 0 grad_library
          (SymbolicGradient ''SymbolicGradient'' []) ''foo_rewritten'')) = grad_graph \<and>
   fld_func_grad (snd (snd (RewriteAssociatedFunction simple_registry simple_finalize grad_graph 0
          grad_library (SymbolicGradient ''SymbolicGradient'' []) ''foo_rewritten''))) =
     [''foo'' \<mapsto> ''foo_rewritten'']"
proof -
  have a: "node_by_id grad_graph 0 = Some grad_node"
    by (simp add: node_by_id_def grad_graph_def)
  have b: "GetNodeAttr (nd_attr (n_def grad_node)) kFuncAttr = (OK, ''foo'', [])"
    by (simp add: GetNodeAttr_def grad_node_def kFuncAttr_def)
  have c: "FindGradient grad_library ''foo'' = []"
    by (simp add: FindGradient_def grad_library_def)
  obtain s g' fld' where r: "RewriteAssociatedFunction simple_registry simple_finalize grad_graph 0
      grad_library (SymbolicGradient ''SymbolicGradient'' []) ''foo_rewritten'' = (s, g', fld')"
    by (rule prod_cases3)
  from RewriteAssociatedFunction_SymbolicGradient[OF a b r] c
  have "s = OK" "g' = grad_graph"
    "fld_func_grad fld' = (fld_func_grad grad_library)(''foo'' \<mapsto> ''foo_rewritten'')"
    by simp_all
  with a b c r show ?thesis by (simp add: grad_library_def)
qed

section \<open>Properties of the traversal\<close>

lemma set_push_inputs:
  "set (push_inputs parse ft ins) = {fst (parse e) | e. e \<in> set ins \<and> parse e \<notin> ft}"
  by (induction ins) auto

lemma deps_Image:
  "lookup a = Some nd \<Longrightarrow> deps parse ft lookup `` {a} = set (push_inputs parse ft (nd_input nd))"
  by (auto simp: deps_def set_push_inputs)

lemma traverse_None:
  "um_find m name = None \<Longrightarrow>
     traverse parse ft m (name # q) =
       (InvalidArgument [''While pruning graph, node '', name,
                         '' needed but not found in the graph.''], m)"
  by simp

lemma traverse_visited:
  "um_find m name = Some (True, nd) \<Longrightarrow> traverse parse ft m (name # q) = traverse parse ft m q"
  by simp

lemma traverse_unvisited:
  "um_find m name = Some (False, nd) \<Longrightarrow>
     traverse parse ft m (name # q) =
       traverse parse ft (um_replace name (True, nd) m) (q @ push_inputs parse ft (nd_input nd))"
  by simp

lemma traverse_cases_induct [case_names Nil Missing Visited Unvisited]:
  fixes P :: "(bool \<times> NodeDef) unordered_map \<Rightarrow> string list \<Rightarrow> bool"
  assumes "\<And>m. P m []"
    and "\<And>m name q. um_find m name = None \<Longrightarrow> P m (name # q)"
    and "\<And>m name q nd. um_find m name = Some (True, nd) \<Longrightarrow> P m q \<Longrightarrow> P m (name # q)"
    and "\<And>m name q nd. um_find m name = Some (False, nd) \<Longrightarrow>
           P (um_replace name (True, nd) m) (q @ push_inputs parse ft (nd_input nd)) \<Longrightarrow>
           P m (name # q)"
  shows "P m q"
proof -
  have "p = parse \<longrightarrow> f = ft \<longrightarrow> P m q" for p f
  proof (induction p f m q rule: traverse.induct)
    case (1 p f m)
    show ?case by (simp add: assms(1))
  next
    case (2 p f m name q)
    show ?case
    proof (intro impI)
      assume pf: "p = parse" "f = ft"
      show "P m (name # q)"
      proof (cases "um_find m name")
        case None
        then show ?thesis by (rule assms(2))
      next
        case (Some x)
        obtain v nd where x: "x = (v, nd)" by (cases x)
        show ?thesis
        proof (cases v)
          case True
          from 2(1)[OF Some x[symmetric] True] pf have "P m q" by simp
          with Some x True show ?thesis by (intro assms(3)[of m name nd q]) simp_all
        next
          case False
          from 2(2)[OF Some x[symmetric] False] pf
          have "P (um_replace name (True, nd) m) (q @ push_inputs parse ft (nd_input nd))" by simp
          with Some x False show ?thesis by (intro assms(4)[of m name nd q]) simp_all
        qed
      qed
    qed
  qed
  then show ?thesis by simp
qed

declare traverse.simps [simp del]

lemma um_find_mark:
  "um_find m name = Some (b, nd) \<Longrightarrow>
     um_find (um_replace name (True, nd) m) x = (if x = name then Some (True, nd) else um_find m x)"
proof -
  assume a: "um_find m name = Some (b, nd)"
  then have "name \<in> fst ` set m"
    by (auto simp: um_find_def dest: map_of_SomeD in_fstI)
  then show ?thesis by (simp add: um_find_def map_of_um_replace)
qed

lemma node_of_mark:
  "um_find m name = Some (b, nd) \<Longrightarrow> node_of (um_replace name (True, nd) m) = node_of m"
  by (rule ext) (simp add: node_of_def um_find_mark)

lemma visited_mark:
  "um_find m name = Some (b, nd) \<Longrightarrow>
     visited_names (um_replace name (True, nd) m) = insert name (visited_names m)"
  by (auto simp: visited_names_def um_find_mark)

lemma traverse_node_of:
  "node_of (snd (traverse parse ft m q)) = node_of m \<and>
   visited_names m \<subseteq> visited_names (snd (traverse parse ft m q))"
proof (induction m q rule: traverse_cases_induct[where parse = parse and ft = ft])
  case (Nil m)
  show ?case by (simp add: traverse.simps)
next
  case (Missing m name q)
  then show ?case by (simp add: traverse_None)
next
  case (Visited m name q nd)
  then show ?case by (simp add: traverse_visited)
next
  case (Unvisited m name q nd)
  then show ?case
    by (simp add: traverse_unvisited node_of_mark[OF Unvisited.hyps]
        visited_mark[OF Unvisited.hyps])
qed

lemma traverse_sound:
  "fst (traverse parse ft m q) = OK \<Longrightarrow>
     visited_names (snd (traverse parse ft m q)) \<subseteq>
       visited_names m \<union> (deps parse ft (node_of m))\<^sup>* `` set q"
proof (induction m q rule: traverse_cases_induct[where parse = parse and ft = ft])
  case (Nil m)
  show ?case by (simp add: traverse.simps)
next
  case (Missing m name q)
  then show ?case by (simp add: traverse_None InvalidArgument_def)
next
  case (Visited m name q nd)
  from Visited.prems Visited.hyps have "fst (traverse parse ft m q) = OK"
    by (simp add: traverse_visited)
  from Visited.IH[OF this] Visited.hyps show ?case
    by (auto simp: traverse_visited)
next
  case (Unvisited m name q nd)
  let ?m2 = "um_replace name (True, nd) m"
  let ?q2 = "q @ push_inputs parse ft (nd_input nd)"
  let ?D = "deps parse ft (node_of m)"
  from Unvisited.hyps have n: "node_of m name = Some nd" by (simp add: node_of_def)
  from Unvisited.prems Unvisited.hyps have "fst (traverse parse ft ?m2 ?q2) = OK"
    by (simp add: traverse_unvisited)
  from Unvisited.IH[OF this]
  have ih: "visited_names (snd (traverse parse ft ?m2 ?q2)) \<subseteq>
      insert name (visited_names m) \<union> ?D\<^sup>* `` set ?q2"
    by (simp add: node_of_mark[OF Unvisited.hyps] visited_mark[OF Unvisited.hyps])
  have push: "set (push_inputs parse ft (nd_input nd)) = ?D `` {name}"
    using deps_Image[where lookup = "node_of m" and a = name, OF n] by simp
  have "?D\<^sup>* `` set ?q2 \<subseteq> ?D\<^sup>* `` set (name # q)"
  proof
    fix x assume "x \<in> ?D\<^sup>* `` set ?q2"
    then obtain s where s: "s \<in> set ?q2" "(s, x) \<in> ?D\<^sup>*" by auto
    show "x \<in> ?D\<^sup>* `` set (name # q)"
    proof (cases "s \<in> set q")
      case True
      with s show ?thesis by auto
    next
      case False
      with s(1) push have "(name, s) \<in> ?D" by auto
      from this s(2) have "(name, x) \<in> ?D\<^sup>*" by (rule converse_rtrancl_into_rtrancl)
      then show ?thesis by auto
    qed
  qed
  moreover have "name \<in> ?D\<^sup>* `` set (name # q)" by auto
  ultimately show ?case using ih Unvisited.hyps
    by (simp only: traverse_unvisited) blast
qed

lemma traverse_complete:
  "fst (traverse parse ft m q) = OK \<Longrightarrow>
   \<forall>a \<in> visited_names m. deps parse ft (node_of m) `` {a} \<subseteq> visited_names m \<union> set q \<Longrightarrow>
     set q \<subseteq> visited_names (snd (traverse parse ft m q)) \<and>
     (\<forall>a \<in> visited_names (snd (traverse parse ft m q)).
        deps parse ft (node_of m) `` {a} \<subseteq> visited_names (snd (traverse parse ft m q)))"
proof (induction m q rule: traverse_cases_induct[where parse = parse and ft = ft])
  case (Nil m)
  then show ?case by (simp add: traverse.simps)
next
  case (Missing m name q)
  then show ?case by (simp add: traverse_None InvalidArgument_def)
next
  case (Visited m name q nd)
  from Visited.hyps have v: "name \<in> visited_names m" by (auto simp: visited_names_def)
  from Visited.prems(1) Visited.hyps have ok: "fst (traverse parse ft m q) = OK"
    by (simp add: traverse_visited)
  from Visited.prems(2) v
  have "\<forall>a \<in> visited_names m. deps parse ft (node_of m) `` {a} \<subseteq> visited_names m \<union> set q"
    by auto
  from Visited.IH[OF ok this] v traverse_node_of[of parse ft m q] Visited.hyps show ?case
    by (auto simp: traverse_visited)
next
  case (Unvisited m name q nd)
  let ?m2 = "um_replace name (True, nd) m"
  let ?q2 = "q @ push_inputs parse ft (nd_input nd)"
  let ?D = "deps parse ft (node_of m)"
  let ?R = "visited_names (snd (traverse parse ft ?m2 ?q2))"
  from Unvisited.hyps have n: "node_of m name = Some nd" by (simp add: node_of_def)
  have push: "set (push_inputs parse ft (nd_input nd)) = ?D `` {name}"
    using deps_Image[where lookup = "node_of m" and a = name, OF n] by simp
  from Unvisited.prems(1) Unvisited.hyps have ok: "fst (traverse parse ft ?m2 ?q2) = OK"
    by (simp add: traverse_unvisited)
  have pre: "\<forall>a \<in> visited_names ?m2. deps parse ft (node_of ?m2) `` {a} \<subseteq> visited_names ?m2 \<union> set ?q2"
  proof
    fix a assume "a \<in> visited_names ?m2"
    then have "a = name \<or> a \<in> visited_names m" by (simp add: visited_mark[OF Unvisited.hyps])
    then show "deps parse ft (node_of ?m2) `` {a} \<subseteq> visited_names ?m2 \<union> set ?q2"
    proof
      assume "a = name"
      then show ?thesis using push by (simp add: node_of_mark[OF Unvisited.hyps]) blast
    next
      assume "a \<in> visited_names m"
      with Unvisited.prems(2) have "?D `` {a} \<subseteq> visited_names m \<union> set (name # q)" by blast
      then show ?thesis
        by (simp add: node_of_mark[OF Unvisited.hyps] visited_mark[OF Unvisited.hyps]) blast
    qed
  qed
  from Unvisited.IH[OF ok pre]
  have ih1: "set ?q2 \<subseteq> ?R" and ih2: "\<forall>a \<in> ?R. ?D `` {a} \<subseteq> ?R"
    by (simp_all add: node_of_mark[OF Unvisited.hyps])
  have "name \<in> visited_names ?m2" by (simp add: visited_mark[OF Unvisited.hyps])
  with traverse_node_of[of parse ft ?m2 ?q2] have "name \<in> ?R" by blast
  with ih1 ih2 show ?case using Unvisited.hyps by (simp only: traverse_unvisited) auto
qed

lemma traverse_succeeds:
  "\<forall>x \<in> (deps parse ft (node_of m))\<^sup>* `` set q. um_find m x \<noteq> None \<Longrightarrow>
     fst (traverse parse ft m q) = OK"
proof (induction m q rule: traverse_cases_induct[where parse = parse and ft = ft])
  case (Nil m)
  show ?case by (simp add: traverse.simps)
next
  case (Missing m name q)
  have "name \<in> (deps parse ft (node_of m))\<^sup>* `` set (name # q)" by auto
  with Missing show ?case by blast
next
  case (Visited m name q nd)
  have "(deps parse ft (node_of m))\<^sup>* `` set q \<subseteq> (deps parse ft (node_of m))\<^sup>* `` set (name # q)"
    by auto
  with Visited.prems have "\<forall>x \<in> (deps parse ft (node_of m))\<^sup>* `` set q. um_find m x \<noteq> None"
    by blast
  from Visited.IH[OF this] Visited.hyps show ?case by (simp add: traverse_visited)
next
  case (Unvisited m name q nd)
  let ?m2 = "um_replace name (True, nd) m"
  let ?q2 = "q @ push_inputs parse ft (nd_input nd)"
  let ?D = "deps parse ft (node_of m)"
  from Unvisited.hyps have n: "node_of m name = Some nd" by (simp add: node_of_def)
  have push: "set (push_inputs parse ft (nd_input nd)) = ?D `` {name}"
    using deps_Image[where lookup = "node_of m" and a = name, OF n] by simp
  have sub: "?D\<^sup>* `` set ?q2 \<subseteq> ?D\<^sup>* `` set (name # q)"
  proof
    fix x assume "x \<in> ?D\<^sup>* `` set ?q2"
    then obtain s where s: "s \<in> set ?q2" "(s, x) \<in> ?D\<^sup>*" by auto
    show "x \<in> ?D\<^sup>* `` set (name # q)"
    proof (cases "s \<in> set q")
      case True
      with s show ?thesis by auto
    next
      case False
      with s(1) push have "(name, s) \<in> ?D" by auto
      from this s(2) have "(name, x) \<in> ?D\<^sup>*" by (rule converse_rtrancl_into_rtrancl)
      then show ?thesis by auto
    qed
  qed
  have "\<forall>x \<in> (deps parse ft (node_of ?m2))\<^sup>* `` set ?q2. um_find ?m2 x \<noteq> None"
  proof
    fix x assume "x \<in> (deps parse ft (node_of ?m2))\<^sup>* `` set ?q2"
    then have "x \<in> ?D\<^sup>* `` set (name # q)"
      using sub by (simp add: node_of_mark[OF Unvisited.hyps]) blast
    with Unvisited.prems have "um_find m x \<noteq> None" by blast
    then show "um_find ?m2 x \<noteq> None" by (auto simp: um_find_mark[OF Unvisited.hyps])
  qed
  from Unvisited.IH[OF this] Unvisited.hyps show ?case by (simp add: traverse_unvisited)
qed

section \<open>Properties of PruneGraphDefInto\<close>

lemma build_node_by_name_find:
  "um_find (build_node_by_name h ns m) k =
     (case node_lookup ns k of Some n \<Rightarrow> Some (False, n) | None \<Rightarrow> um_find m k)"
  by (induction ns arbitrary: m) (auto simp: um_find_um_assign split: option.splits)

lemma um_find_Nil: "um_find [] k = None"
  by (simp add: um_find_def)

lemma node_of_build: "node_of (build_node_by_name h ns []) = node_lookup ns"
  by (rule ext) (simp add: node_of_def build_node_by_name_find um_find_Nil split: option.splits)

lemma visited_build: "visited_names (build_node_by_name h ns []) = {}"
  by (auto simp: visited_names_def build_node_by_name_find um_find_Nil split: option.splits)

lemma node_lookup_None_iff: "node_lookup ns k = None \<longleftrightarrow> k \<notin> nd_name ` set ns"
  by (induction ns) (auto split: option.splits)


lemma node_lookup_distinct:
  "distinct (map nd_name ns) \<Longrightarrow> node_lookup ns k = Some n \<longleftrightarrow> n \<in> set ns \<and> nd_name n = k"
proof (induction ns)
  case Nil
  show ?case by simp
next
  case (Cons a ns)
  then have d: "distinct (map nd_name ns)" and a: "node_lookup ns (nd_name a) = None"
    by (simp_all add: node_lookup_None_iff)
  show ?case
  proof (cases "nd_name a = k")
    case True
    with a have "k \<notin> nd_name ` set ns" by (simp add: node_lookup_None_iff)
    then have "\<forall>n \<in> set ns. nd_name n \<noteq> k" by force
    with True a show ?thesis by auto
  next
    case False
    with Cons.IH[OF d] show ?thesis by (auto split: option.splits)
  qed
qed

lemma node_lookup_filter:
  "node_lookup (filter (\<lambda>n. nd_name n \<in> N) ns) k = (if k \<in> N then node_lookup ns k else None)"
  by (induction ns) (auto split: option.splits)

lemma closed_rtrancl_Image:
  assumes "S \<subseteq> R" "\<forall>a \<in> R. D `` {a} \<subseteq> R"
  shows "D\<^sup>* `` S \<subseteq> R"
proof
  fix x assume "x \<in> D\<^sup>* `` S"
  then obtain s where s: "s \<in> S" "(s, x) \<in> D\<^sup>*" by auto
  from s(2) show "x \<in> R"
  proof (induction rule: rtrancl_induct)
    case base
    from s(1) assms(1) show ?case by blast
  next
    case (step y z)
    with assms(2) show ?case by blast
  qed
qed

lemma is_visited_iff: "is_visited m k \<longleftrightarrow> k \<in> visited_names m"
  by (auto simp: is_visited_def visited_names_def split: option.splits)

lemma traverse_from_start:
  assumes "fst (traverse parse ft (build_node_by_name h ns []) q) = OK"
  shows "visited_names (snd (traverse parse ft (build_node_by_name h ns []) q)) =
           (deps parse ft (node_lookup ns))\<^sup>* `` set q"
    and "(deps parse ft (node_lookup ns))\<^sup>* `` set q \<subseteq> {k. node_lookup ns k \<noteq> None}"
proof -
  let ?m0 = "build_node_by_name h ns []"
  let ?R = "visited_names (snd (traverse parse ft ?m0 q))"
  let ?D = "deps parse ft (node_lookup ns)"
  from traverse_sound[OF assms] have a: "?R \<subseteq> ?D\<^sup>* `` set q"
    by (simp add: visited_build node_of_build)
  have "\<forall>a \<in> visited_names ?m0. deps parse ft (node_of ?m0) `` {a} \<subseteq> visited_names ?m0 \<union> set q"
    by (simp add: visited_build)
  from traverse_complete[OF assms this]
  have "set q \<subseteq> ?R" and "\<forall>a \<in> ?R. ?D `` {a} \<subseteq> ?R"
    by (simp_all add: node_of_build)
  then have "?D\<^sup>* `` set q \<subseteq> ?R" by (rule closed_rtrancl_Image)
  with a show eq: "?R = ?D\<^sup>* `` set q" by blast
  have "?R \<subseteq> {k. node_of (snd (traverse parse ft ?m0 q)) k \<noteq> None}"
    by (auto simp: visited_names_def node_of_def)
  also have "\<dots> = {k. node_lookup ns k \<noteq> None}"
    using traverse_node_of[of parse ft ?m0 q] by (simp add: node_of_build)
  finally show "?D\<^sup>* `` set q \<subseteq> {k. node_lookup ns k \<noteq> None}"
    unfolding eq .
qed

lemma PruneGraphDefInto_unfold:
  "PruneGraphDefInto h parse config g =
     (case fst (traverse parse (feed_tensors_of config) (build_node_by_name h (gd_node g) [])
                 (map (\<lambda>f. node_name (fetch_id f)) (fetch config))) of
        Error c m \<Rightarrow> (Error c m, g\<lparr>gd_node := []\<rparr>)
      | OK \<Rightarrow>
          (OK, g\<lparr>gd_node :=
                 filter (\<lambda>node. nd_name node \<in>
                           visited_names
                             (snd (traverse parse (feed_tensors_of config)
                                     (build_node_by_name h (gd_node g) [])
                                     (map (\<lambda>f. node_name (fetch_id f)) (fetch config)))))
                   (gd_node g)\<rparr>))"
  by (simp add: PruneGraphDefInto_def Let_def is_visited_iff split: prod.splits Status.splits)

lemma prune_result:
  assumes "fst (PruneGraphDefInto h parse config g) = OK"
  shows "snd (PruneGraphDefInto h parse config g) =
           g\<lparr>gd_node := filter (\<lambda>n. nd_name n \<in> reached parse config g) (gd_node g)\<rparr>"
    and "reached parse config g \<subseteq> {k. node_lookup (gd_node g) k \<noteq> None}"
proof -
  let ?t = "traverse parse (feed_tensors_of config) (build_node_by_name h (gd_node g) [])
              (map (\<lambda>f. node_name (fetch_id f)) (fetch config))"
  from assms have ok: "fst ?t = OK"
    unfolding PruneGraphDefInto_unfold by (cases "fst ?t") simp_all
  from traverse_from_start(1)[OF ok]
  have v: "visited_names (snd ?t) = reached parse config g"
    by (simp add: reached_def)
  show "snd (PruneGraphDefInto h parse config g) =
           g\<lparr>gd_node := filter (\<lambda>n. nd_name n \<in> reached parse config g) (gd_node g)\<rparr>"
    unfolding PruneGraphDefInto_unfold by (simp add: ok v)
  from traverse_from_start(2)[OF ok]
  show "reached parse config g \<subseteq> {k. node_lookup (gd_node g) k \<noteq> None}"
    by (simp add: reached_def)
qed

lemma prune_succeeds:
  assumes "reached parse config g \<subseteq> {k. node_lookup (gd_node g) k \<noteq> None}"
  shows "fst (PruneGraphDefInto h parse config g) = OK"
proof -
  let ?m0 = "build_node_by_name h (gd_node g) []"
  let ?q = "map (\<lambda>f. node_name (fetch_id f)) (fetch config)"
  have "\<forall>x \<in> (deps parse (feed_tensors_of config) (node_of ?m0))\<^sup>* `` set ?q. um_find ?m0 x \<noteq> None"
  proof
    fix x assume "x \<in> (deps parse (feed_tensors_of config) (node_of ?m0))\<^sup>* `` set ?q"
    then have "x \<in> reached parse config g"
      by (simp add: reached_def node_of_build)
    with assms have "node_lookup (gd_node g) x \<noteq> None" by blast
    then show "um_find ?m0 x \<noteq> None"
      by (auto simp: build_node_by_name_find um_find_Nil)
  qed
  then have "fst (traverse parse (feed_tensors_of config) ?m0 ?q) = OK"
    by (rule traverse_succeeds)
  then show ?thesis unfolding PruneGraphDefInto_unfold by simp
qed

lemma reached_of_pruned:
  assumes "reached parse config g \<subseteq> {k. node_lookup (gd_node g) k \<noteq> None}"
  shows "reached parse config
           (g\<lparr>gd_node := filter (\<lambda>n. nd_name n \<in> reached parse config g) (gd_node g)\<rparr>) =
         reached parse config g"
proof -
  let ?N = "reached parse config g"
  let ?g' = "g\<lparr>gd_node := filter (\<lambda>n. nd_name n \<in> ?N) (gd_node g)\<rparr>"
  let ?D = "deps parse (feed_tensors_of config) (node_lookup (gd_node g))"
  let ?D' = "deps parse (feed_tensors_of config) (node_lookup (gd_node ?g'))"
  let ?S = "set (map (\<lambda>f. node_name (fetch_id f)) (fetch config))"
  have D': "?D' = {(a, b). (a, b) \<in> ?D \<and> a \<in> ?N}"
    by (auto simp: deps_def node_lookup_filter split: if_splits)
  have N: "?N = ?D\<^sup>* `` ?S" by (simp add: reached_def)
  have "?D'\<^sup>* `` ?S = ?D\<^sup>* `` ?S"
  proof
    have "?D' \<subseteq> ?D" unfolding D' by auto
    then have "?D'\<^sup>* \<subseteq> ?D\<^sup>*" by (rule rtrancl_mono)
    then show "?D'\<^sup>* `` ?S \<subseteq> ?D\<^sup>* `` ?S" by blast
  next
    show "?D\<^sup>* `` ?S \<subseteq> ?D'\<^sup>* `` ?S"
    proof
      fix x assume "x \<in> ?D\<^sup>* `` ?S"
      then obtain s where s: "s \<in> ?S" "(s, x) \<in> ?D\<^sup>*" by auto
      from s(2) have "(s, x) \<in> ?D'\<^sup>*"
      proof (induction rule: rtrancl_induct)
        case base
        show ?case by simp
      next
        case (step y z)
        from step(1) s(1) have "y \<in> ?N" unfolding N by blast
        with step(2) have "(y, z) \<in> ?D'" unfolding D' by blast
        with step(3) show ?case by (rule rtrancl_into_rtrancl)
      qed
      with s(1) show "x \<in> ?D'\<^sup>* `` ?S" by blast
    qed
  qed
  then show ?thesis by (simp add: reached_def)
qed





text \<open>
  Claim C6. When pruning succeeds, pruning its output again with the same config
  succeeds and returns that output unchanged.
\<close>

theorem PruneGraphDefInto_idempotent:
  assumes "fst (PruneGraphDefInto h parse config g) = OK"
  shows "PruneGraphDefInto h' parse config (snd (PruneGraphDefInto h parse config g)) =
           (OK, snd (PruneGraphDefInto h parse config g))"
proof -
  let ?N = "reached parse config g"
  let ?out = "g\<lparr>gd_node := filter (\<lambda>n. nd_name n \<in> ?N) (gd_node g)\<rparr>"
  from prune_result[OF assms]
  have out: "snd (PruneGraphDefInto h parse config g) = ?out"
    and dom: "?N \<subseteq> {k. node_lookup (gd_node g) k \<noteq> None}" by simp_all
  have N': "reached parse config ?out = ?N" using dom by (rule reached_of_pruned)
  have "reached parse config ?out \<subseteq> {k. node_lookup (gd_node ?out) k \<noteq> None}"
    unfolding N' using dom by (auto simp: node_lookup_filter)
  then have ok: "fst (PruneGraphDefInto h' parse config ?out) = OK" by (rule prune_succeeds)
  from prune_result(1)[OF ok]
  have "snd (PruneGraphDefInto h' parse config ?out) = ?out"
    by (simp add: N')
  with ok show ?thesis unfolding out by (simp add: prod_eq_iff)
qed

lemmas prune_eval_defs = PruneGraphDefInto_def pr_graph_def pr_config_def mk_feed_def mk_fetch_def
  mk_node_def mk_graph_def no_shape_def front_order_def back_order_def Let_def um_find_def
  um_assign_def feed_tensors_of_def to_int32_def is_visited_def traverse.simps simple_parse_def
  is_digit_def kControlSlot_def InvalidArgument_def

lemma pr_eval:
  "PruneGraphDefInto front_order simple_parse pr_config pr_graph =
     (OK, mk_graph [mk_node ''A'' [''E''], mk_node ''E'' [], mk_node ''B'' [''A:0''],
                    mk_node ''C'' [''B'', ''A:1'']])"
  by (simp add: prune_eval_defs)




theorem PruneGraphDefInto_idempotent_witness:
  "fst (PruneGraphDefInto front_order simple_parse pr_config pr_graph) = OK \<and>
   PruneGraphDefInto back_order simple_parse pr_config
     (mk_graph [mk_node ''A'' [''E''], mk_node ''E'' [], mk_node ''B'' [''A:0''],
                mk_node ''C'' [''B'', ''A:1'']]) =
     (OK, mk_graph [mk_node ''A'' [''E''], mk_node ''E'' [], mk_node ''B'' [''A:0''],
                    mk_node ''C'' [''B'', ''A:1'']])"
proof -
  have ok: "fst (PruneGraphDefInto front_order simple_parse pr_config pr_graph) = OK"
    by (simp add: pr_eval)
  from PruneGraphDefInto_idempotent[OF ok, of back_order] ok show ?thesis
    by (simp add: pr_eval)
qed

section \<open>The error of AddPlaceholdersForFeeds for a missing feed node\<close>

lemma sorted_less_distinct: "sorted_wrt (<) (xs :: string list) \<Longrightarrow> distinct xs"
  by (induction xs) auto

lemma last_feed_for_SomeD:
  "last_feed_for fs k = Some f \<Longrightarrow> f \<in> set fs \<and> name_port f = k"
  by (induction fs) (auto simp: name_port_def split: option.splits if_splits)

lemma collect_feeds_last:
  "map_option pi_feed (map_find (fst (collect_feeds h fs info r)) k) =
     (case last_feed_for fs k of
        Some f \<Rightarrow> Some f
      | None \<Rightarrow> map_option pi_feed (map_find info k))"
  by (induction fs arbitrary: info r)
     (auto simp: Let_def map_find_map_assign split: option.splits)

lemma collect_feeds_entry:
  assumes "e \<in> set (fst (collect_feeds h fs [] r))"
  shows "last_feed_for fs (fst e) = Some (pi_feed (snd e))"
proof -
  let ?infos = "fst (collect_feeds h fs [] r)"
  have "sorted_wrt (<) (map fst ?infos)" by (rule collect_feeds_sorted) simp
  then have d: "distinct (map fst ?infos)" by (rule sorted_less_distinct)
  from map_of_eq_Some_iff[OF d, of "fst e" "snd e"] assms
  have "map_of ?infos (fst e) = Some (snd e)" by simp
  then have A: "map_option pi_feed (map_find ?infos (fst e)) = Some (pi_feed (snd e))"
    by (simp add: map_find_def)
  have B: "map_option pi_feed (map_find ?infos (fst e)) =
      (case last_feed_for fs (fst e) of Some f \<Rightarrow> Some f | None \<Rightarrow> None)"
    by (simp add: collect_feeds_last) (simp add: map_find_def split: option.splits)
  from A B have "(case last_feed_for fs (fst e) of Some f \<Rightarrow> Some f | None \<Rightarrow> None) =
      Some (pi_feed (snd e))" by (simp only:)
  then show ?thesis by (simp split: option.splits)
qed

lemma build_name_to_node_find:
  "um_find (build_name_to_node h ns m) k =
     (case node_lookup ns k of Some n \<Rightarrow> Some n | None \<Rightarrow> um_find m k)"
  by (induction ns arbitrary: m) (auto simp: um_find_um_assign split: option.splits)

lemma name_to_node_lookup: "um_find (build_name_to_node h ns []) = node_lookup ns"
  by (rule ext) (simp add: build_name_to_node_find um_find_Nil split: option.splits)

lemma resolve_types_first_failure:
  assumes "sorted_wrt (<) (map fst infos)" "(k0, i0) \<in> set infos"
    and "entry_status reg v n2n i0 \<noteq> OK"
    and "\<forall>e \<in> set infos. fst e < k0 \<longrightarrow> entry_status reg v n2n (snd e) = OK"
  shows "fst (resolve_types reg v n2n infos) = entry_status reg v n2n i0"
  using assms
proof (induction infos)
  case Nil
  then show ?case by simp
next
  case (Cons a infos)
  obtain k i where a: "a = (k, i)" by (cases a)
  show ?case
  proof (cases "(k0, i0) \<in> set infos")
    case False
    with Cons.prems(2) a have e: "k = k0" "i = i0" by auto
    show ?thesis
    proof (cases "um_find n2n (node_name (feed_id (pi_feed i0)))")
      case None
      then show ?thesis by (simp add: a e entry_status_def)
    next
      case (Some existing)
      with Cons.prems(3) have ut: "feed_type (pi_feed i0) = DT_INVALID"
        and bad: "fst (infer_data_type reg v existing (pi_feed i0)) \<noteq> OK"
        by (auto simp: entry_status_def split: if_splits)
      obtain st dt where inf: "infer_data_type reg v existing (pi_feed i0) = (st, dt)"
        by (cases "infer_data_type reg v existing (pi_feed i0)")
      with bad obtain c m where st: "st = Error c m" by (cases st) auto
      show ?thesis by (simp add: a e entry_status_def Some ut inf st)
    qed
  next
    case True
    with Cons.prems(1) a have lt: "k < k0" by auto
    with Cons.prems(4) a have okh: "entry_status reg v n2n i = OK" by auto
    from Cons.prems(1) have s: "sorted_wrt (<) (map fst infos)" by simp
    from Cons.prems(4) have rest: "\<forall>e \<in> set infos. fst e < k0 \<longrightarrow> entry_status reg v n2n (snd e) = OK"
      by simp
    from Cons.IH[OF s True Cons.prems(3) rest]
    have ih: "fst (resolve_types reg v n2n infos) = entry_status reg v n2n i0" .
    with Cons.prems(3) obtain c m x where r: "resolve_types reg v n2n infos = (Error c m, x)"
      by (cases "resolve_types reg v n2n infos"; cases "fst (resolve_types reg v n2n infos)") auto
    with ih have es: "entry_status reg v n2n i0 = Error c m" by simp
    from okh obtain existing where ex: "um_find n2n (node_name (feed_id (pi_feed i))) = Some existing"
      by (auto simp: entry_status_def NotFound_def split: option.splits)
    show ?thesis
    proof (cases "feed_type (pi_feed i) \<noteq> DT_INVALID")
      case True
      then show ?thesis by (simp add: a ex r es)
    next
      case False
      with okh ex have "fst (infer_data_type reg v existing (pi_feed i)) = OK"
        by (simp add: entry_status_def)
      then obtain dt where "infer_data_type reg v existing (pi_feed i) = (OK, dt)"
        by (cases "infer_data_type reg v existing (pi_feed i)") auto
      then show ?thesis using False by (simp add: a ex r es)
    qed
  qed
qed

lemma entry_status_present:
  assumes "node_lookup ns (node_name (feed_id (pi_feed i))) = Some nd"
  shows "entry_status reg v (build_name_to_node h ns []) i =
           (if feed_type (pi_feed i) \<noteq> DT_INVALID then OK
            else fst (infer_data_type reg v nd (pi_feed i)))"
  using assms by (simp add: entry_status_def name_to_node_lookup)

lemma entry_status_absent:
  assumes "node_name (feed_id (pi_feed i)) \<notin> nd_name ` set ns"
  shows "entry_status reg v (build_name_to_node h ns []) i =
           NotFound [''Can't find feed node: '', TensorIdToString (feed_id (pi_feed i))]"
proof -
  from assms have "node_lookup ns (node_name (feed_id (pi_feed i))) = None"
    by (simp add: node_lookup_None_iff)
  then show ?thesis by (simp add: entry_status_def name_to_node_lookup)
qed

lemma early_entries_resolve:
  assumes "\<forall>f' \<in> set (feed config).
             node_name (feed_id f') \<notin> nd_name ` set (gd_node g) \<longrightarrow> B \<le> TensorIdToString (feed_id f')"
    and "\<forall>f'. last_feed_for (feed config) (TensorIdToString (feed_id f')) = Some f' \<and>
              TensorIdToString (feed_id f') < B \<longrightarrow> resolves reg g f'"
    and "e \<in> set (fst (collect_feeds h (feed config) [] r))" and "fst e < B"
  shows "entry_status reg (gd_versions g) (build_name_to_node h' (gd_node g) []) (snd e) = OK"
proof -
  let ?f = "pi_feed (snd e)"
  have "info_ok (feed config) e"
    using collect_feeds_ok[of "[]" "feed config" "feed config" h r] assms(3) by simp
  then have mem: "?f \<in> set (feed config)" and key: "fst e = TensorIdToString (feed_id ?f)"
    by (simp_all add: info_ok_def name_port_def)
  from collect_feeds_entry[OF assms(3)] key
  have last: "last_feed_for (feed config) (TensorIdToString (feed_id ?f)) = Some ?f" by simp
  from assms(4) key have lt: "TensorIdToString (feed_id ?f) < B" by simp
  from assms(2) last lt have res: "resolves reg g ?f" by blast
  have "node_name (feed_id ?f) \<in> nd_name ` set (gd_node g)"
  proof (rule ccontr)
    assume "node_name (feed_id ?f) \<notin> nd_name ` set (gd_node g)"
    with assms(1) mem have "B \<le> TensorIdToString (feed_id ?f)" by blast
    with lt show False by simp
  qed
  then obtain nd where nd: "node_lookup (gd_node g) (node_name (feed_id ?f)) = Some nd"
    using node_lookup_None_iff[of "gd_node g" "node_name (feed_id ?f)"] by auto
  from res nd have "feed_type ?f \<noteq> DT_INVALID \<or>
      fst (infer_data_type reg (gd_versions g) nd ?f) = OK"
    by (simp add: resolves_def)
  then show ?thesis unfolding entry_status_present[OF nd] by auto
qed

text \<open>
  Claim C10, as amended. When some feed of the config names a node that is not in the
  graph, \<open>AddPlaceholdersForFeeds\<close> fails and returns the graph unchanged, whether or
  not the feed declares a data type. The error is that of the first entry, in increasing
  order of the \<open>name:port\<close> strings, that fails. It is \<open>NotFound\<close> naming the feed
  tensor when no feed with an absent node has a smaller string and every entry before it
  resolves. It is the error of the type inference of an entry \<open>f0\<close> when the node of
  \<open>f0\<close> is in the graph, its type is not declared and cannot be inferred, every feed
  with an absent node has a larger string and every entry before \<open>f0\<close> resolves.
\<close>

theorem AddPlaceholdersForFeeds_missing_node:
  assumes "f \<in> set (feed config)"
    and "node_name (feed_id f) \<notin> nd_name ` set (gd_node g)"
  shows "fst (AddPlaceholdersForFeeds h parse to_string config reg remap g) \<noteq> OK \<and>
         snd (snd (AddPlaceholdersForFeeds h parse to_string config reg remap g)) = g \<and>
         ((\<forall>f' \<in> set (feed config).
             node_name (feed_id f') \<notin> nd_name ` set (gd_node g) \<longrightarrow>
               TensorIdToString (feed_id f) \<le> TensorIdToString (feed_id f')) \<and>
          (\<forall>f'. last_feed_for (feed config) (TensorIdToString (feed_id f')) = Some f' \<and>
                TensorIdToString (feed_id f') < TensorIdToString (feed_id f) \<longrightarrow>
                resolves reg g f') \<longrightarrow>
          fst (AddPlaceholdersForFeeds h parse to_string config reg remap g) =
            NotFound [''Can't find feed node: '', TensorIdToString (feed_id f)]) \<and>
         (\<forall>f0 nd.
            last_feed_for (feed config) (TensorIdToString (feed_id f0)) = Some f0 \<and>
            node_lookup (gd_node g) (node_name (feed_id f0)) = Some nd \<and>
            \<not> resolves reg g f0 \<and>
            (\<forall>f' \<in> set (feed config).
               node_name (feed_id f') \<notin> nd_name ` set (gd_node g) \<longrightarrow>
                 TensorIdToString (feed_id f0) < TensorIdToString (feed_id f')) \<and>
            (\<forall>f'. last_feed_for (feed config) (TensorIdToString (feed_id f')) = Some f' \<and>
                  TensorIdToString (feed_id f') < TensorIdToString (feed_id f0) \<longrightarrow>
                  resolves reg g f') \<longrightarrow>
            fst (AddPlaceholdersForFeeds h parse to_string config reg remap g) =
              fst (infer_data_type reg (gd_versions g) nd f0))"
proof -
  let ?c = "collect_feeds h (feed config) [] remap"
  let ?n = "build_name_to_node h (gd_node g) []"
  let ?r = "resolve_types reg (gd_versions g) ?n (fst ?c)"
  let ?R = "AddPlaceholdersForFeeds h parse to_string config reg remap g"
  let ?K = "TensorIdToString (feed_id f)"
  have A: "?R =
      (case ?r of
         (Error c m, _) \<Rightarrow> (Error c m, snd ?c, g)
       | (OK, infos) \<Rightarrow>
           (OK, snd ?c, g\<lparr>gd_node := map (rewrite_node parse to_string infos)
                                (gd_node g @ map (make_placeholder \<circ> snd) infos)\<rparr>))"
    by (simp add: AddPlaceholdersForFeeds_def Let_def split_beta)
  have fail: "fst ?R = st \<and> snd (snd ?R) = g" if "fst ?r = st" "st \<noteq> OK" for st
  proof -
    from that obtain cc mm x where "?r = (Error cc mm, x)" "st = Error cc mm"
      by (cases ?r; cases "fst ?r") auto
    then show ?thesis unfolding A by simp
  qed
  have ok: "\<forall>e \<in> set (fst ?c). info_ok (feed config) e"
    by (rule collect_feeds_ok) simp_all
  have srt: "sorted_wrt (<) (map fst (fst ?c))" by (rule collect_feeds_sorted) simp
  have keys: "fst ` set (fst ?c) = name_port ` set (feed config)"
    by (simp add: collect_feeds_keys)
  have first: "fst ?R = entry_status reg (gd_versions g) ?n (snd e) \<and> snd (snd ?R) = g"
    if "e \<in> set (fst ?c)" "entry_status reg (gd_versions g) ?n (snd e) \<noteq> OK"
      "\<forall>e' \<in> set (fst ?c). fst e' < fst e \<longrightarrow> entry_status reg (gd_versions g) ?n (snd e') = OK"
    for e
  proof -
    from that(1) have "(fst e, snd e) \<in> set (fst ?c)" by simp
    from resolve_types_first_failure[OF srt this that(2) that(3)] that(2)
    show ?thesis by (intro fail) simp_all
  qed
  \<comment> \<open>the entry filed under the key of \<open>f\<close>\<close>
  from keys assms(1) have "?K \<in> fst ` set (fst ?c)" by (auto simp: name_port_def)
  then obtain e where e: "e \<in> set (fst ?c)" "fst e = ?K" by auto
  from ok e have "TensorIdToString (feed_id (pi_feed (snd e))) = ?K"
    by (simp add: info_ok_def name_port_def)
  note same = TensorIdToString_inj[OF this]
  from same assms(2) have abs: "node_name (feed_id (pi_feed (snd e))) \<notin> nd_name ` set (gd_node g)"
    by simp
  have es: "entry_status reg (gd_versions g) ?n (snd e) = NotFound [''Can't find feed node: '', ?K]"
    unfolding entry_status_absent[OF abs]
    using \<open>TensorIdToString (feed_id (pi_feed (snd e))) = ?K\<close> by simp
  have "\<exists>e \<in> set (fst ?c). um_find ?n (node_name (feed_id (pi_feed (snd e)))) = None"
    using e(1) abs by (auto simp: name_to_node_lookup node_lookup_None_iff)
  then have "fst ?r \<noteq> OK" by (rule resolve_types_fail)
  from fail[OF refl this] this have p1: "fst ?R \<noteq> OK" and p2: "snd (snd ?R) = g" by simp_all
  have p3: "fst ?R = NotFound [''Can't find feed node: '', ?K]"
    if H1: "\<forall>f' \<in> set (feed config).
             node_name (feed_id f') \<notin> nd_name ` set (gd_node g) \<longrightarrow>
               ?K \<le> TensorIdToString (feed_id f')"
      and H2: "\<forall>f'. last_feed_for (feed config) (TensorIdToString (feed_id f')) = Some f' \<and>
                TensorIdToString (feed_id f') < ?K \<longrightarrow> resolves reg g f'"
  proof -
    have "\<forall>e' \<in> set (fst ?c). fst e' < fst e \<longrightarrow> entry_status reg (gd_versions g) ?n (snd e') = OK"
    proof (intro ballI impI)
      fix e' assume "e' \<in> set (fst ?c)" "fst e' < fst e"
      then show "entry_status reg (gd_versions g) ?n (snd e') = OK"
        using early_entries_resolve[OF H1 H2, of e' h remap h] e(2) by simp
    qed
    from first[OF e(1) _ this] es show ?thesis by (simp add: NotFound_def)
  qed
  have p4: "fst ?R = fst (infer_data_type reg (gd_versions g) nd f0)"
    if L: "last_feed_for (feed config) (TensorIdToString (feed_id f0)) = Some f0"
      and N: "node_lookup (gd_node g) (node_name (feed_id f0)) = Some nd"
      and U: "\<not> resolves reg g f0"
      and H1: "\<forall>f' \<in> set (feed config).
               node_name (feed_id f') \<notin> nd_name ` set (gd_node g) \<longrightarrow>
                 TensorIdToString (feed_id f0) < TensorIdToString (feed_id f')"
      and H2: "\<forall>f'. last_feed_for (feed config) (TensorIdToString (feed_id f')) = Some f' \<and>
                  TensorIdToString (feed_id f') < TensorIdToString (feed_id f0) \<longrightarrow>
                  resolves reg g f'"
    for f0 nd
  proof -
    let ?K0 = "TensorIdToString (feed_id f0)"
    from last_feed_for_SomeD[OF L] have "f0 \<in> set (feed config)" by simp
    with keys have "?K0 \<in> fst ` set (fst ?c)" by (auto simp: name_port_def)
    then obtain e0 where e0: "e0 \<in> set (fst ?c)" "fst e0 = ?K0" by auto
    from collect_feeds_entry[OF e0(1)] e0(2) L have pf: "pi_feed (snd e0) = f0" by simp
    from U N have ut: "feed_type f0 = DT_INVALID"
      and bad: "fst (infer_data_type reg (gd_versions g) nd f0) \<noteq> OK"
      by (simp_all add: resolves_def)
    have es0: "entry_status reg (gd_versions g) ?n (snd e0) =
        fst (infer_data_type reg (gd_versions g) nd f0)"
      using entry_status_present[of "gd_node g" "snd e0" nd reg "gd_versions g" h] N ut
      by (simp add: pf)
    from H1 have H1': "\<forall>f' \<in> set (feed config).
               node_name (feed_id f') \<notin> nd_name ` set (gd_node g) \<longrightarrow>
                 ?K0 \<le> TensorIdToString (feed_id f')"
      by (auto intro: less_imp_le)
    have "\<forall>e' \<in> set (fst ?c). fst e' < fst e0 \<longrightarrow> entry_status reg (gd_versions g) ?n (snd e') = OK"
    proof (intro ballI impI)
      fix e' assume "e' \<in> set (fst ?c)" "fst e' < fst e0"
      then show "entry_status reg (gd_versions g) ?n (snd e') = OK"
        using early_entries_resolve[OF H1' H2, of e' h remap h] e0(2) by simp
    qed
    from first[OF e0(1) _ this] es0 bad show ?thesis by simp
  qed
  from p1 p2 p3 p4 show ?thesis by blast
qed

theorem AddPlaceholdersForFeeds_missing_node_witness:
  "mk_feed ''Z'' 0 1 \<in> set (feed infer_config) \<and>
   node_name (feed_id (mk_feed ''Z'' 0 1)) \<notin> nd_name ` set (gd_node cx_graph) \<and>
   resolves simple_registry cx_graph (mk_feed ''A'' 0 DT_INVALID) \<and>
   fst (AddPlaceholdersForFeeds front_order simple_parse simple_to_string infer_config
          simple_registry [] cx_graph) = Error NOT_FOUND ''Can't find feed node: Z:0'' \<and>
   snd (snd (AddPlaceholdersForFeeds front_order simple_parse simple_to_string infer_config
          simple_registry [] cx_graph)) = cx_graph \<and>
   mk_feed ''Z'' 0 1 \<in> set (feed cx_config) \<and>
   \<not> resolves simple_registry cx_graph (mk_feed ''A'' 5 DT_INVALID) \<and>
   fst (AddPlaceholdersForFeeds front_order simple_parse simple_to_string cx_config
          simple_registry [] cx_graph) =
     Error INVALID_ARGUMENT ''Invalid output_index 5 for feed node A''"
proof -
  let ?z = "mk_feed ''Z'' 0 1"
  let ?a0 = "mk_feed ''A'' 0 DT_INVALID"
  let ?a5 = "mk_feed ''A'' 5 DT_INVALID"
  have m1: "?z \<in> set (feed infer_config)" by (simp add: infer_config_def)
  have m2: "?z \<in> set (feed cx_config)" by (simp add: cx_config_def)
  have ab: "node_name (feed_id ?z) \<notin> nd_name ` set (gd_node cx_graph)"
    by (simp add: cx_graph_def eval_defs)
  have kz: "TensorIdToString (feed_id ?z) = ''Z:0''" by (simp add: eval_defs)
  have ka0: "TensorIdToString (feed_id ?a0) = ''A:0''" by (simp add: eval_defs)
  have ka5: "TensorIdToString (feed_id ?a5) = ''A:5''" by (simp add: eval_defs)
  have r0: "resolves simple_registry cx_graph ?a0"
    by (simp add: resolves_def cx_graph_def eval_defs infer_data_type_def
        num_outputs_def output_type_def)
  have la5: "node_lookup (gd_node cx_graph) (node_name (feed_id ?a5)) = Some (mk_node ''A'' [])"
    by (simp add: cx_graph_def eval_defs)
  have i5: "fst (infer_data_type simple_registry (gd_versions cx_graph) (mk_node ''A'' []) ?a5) =
      Error INVALID_ARGUMENT ''Invalid output_index 5 for feed node A''"
    by (simp add: cx_graph_def eval_defs infer_data_type_def num_outputs_def output_type_def)
  have r5: "\<not> resolves simple_registry cx_graph ?a5"
    unfolding resolves_def la5 using i5 by (simp add: eval_defs)
  have l5: "last_feed_for (feed cx_config) (TensorIdToString (feed_id ?a5)) = Some ?a5"
    by (simp add: cx_config_def eval_defs)
  \<comment> \<open>the first absent feed, every earlier entry resolving\<close>
  have H1: "\<forall>f' \<in> set (feed infer_config).
      node_name (feed_id f') \<notin> nd_name ` set (gd_node cx_graph) \<longrightarrow>
        TensorIdToString (feed_id ?z) \<le> TensorIdToString (feed_id f')"
    by (simp add: infer_config_def cx_graph_def eval_defs)
  have H2: "\<forall>f'. last_feed_for (feed infer_config) (TensorIdToString (feed_id f')) = Some f' \<and>
      TensorIdToString (feed_id f') < TensorIdToString (feed_id ?z) \<longrightarrow>
      resolves simple_registry cx_graph f'"
  proof (intro allI impI)
    fix f' assume a: "last_feed_for (feed infer_config) (TensorIdToString (feed_id f')) = Some f' \<and>
      TensorIdToString (feed_id f') < TensorIdToString (feed_id ?z)"
    from last_feed_for_SomeD[OF conjunct1[OF a]] have "f' = ?a0 \<or> f' = ?z"
      by (simp add: infer_config_def)
    with a r0 show "resolves simple_registry cx_graph f'" by auto
  qed
  \<comment> \<open>an entry before every absent feed whose type cannot be inferred\<close>
  have G1: "\<forall>f' \<in> set (feed cx_config).
      node_name (feed_id f') \<notin> nd_name ` set (gd_node cx_graph) \<longrightarrow>
        TensorIdToString (feed_id ?a5) < TensorIdToString (feed_id f')"
    by (simp add: cx_config_def cx_graph_def eval_defs)
  have G2: "\<forall>f'. last_feed_for (feed cx_config) (TensorIdToString (feed_id f')) = Some f' \<and>
      TensorIdToString (feed_id f') < TensorIdToString (feed_id ?a5) \<longrightarrow>
      resolves simple_registry cx_graph f'"
  proof (intro allI impI)
    fix f' assume a: "last_feed_for (feed cx_config) (TensorIdToString (feed_id f')) = Some f' \<and>
      TensorIdToString (feed_id f') < TensorIdToString (feed_id ?a5)"
    from last_feed_for_SomeD[OF conjunct1[OF a]] have "f' = ?z \<or> f' = ?a5"
      by (simp add: cx_config_def)
    with a have False unfolding ka5 using kz ka5 by auto
    then show "resolves simple_registry cx_graph f'" ..
  qed
  note T1 = AddPlaceholdersForFeeds_missing_node[OF m1 ab, of front_order simple_parse
      simple_to_string simple_registry "[]"]
  note T2 = AddPlaceholdersForFeeds_missing_node[OF m2 ab, of front_order simple_parse
      simple_to_string simple_registry "[]"]
  from T1 H1 H2 have
    e1: "fst (AddPlaceholdersForFeeds front_order simple_parse simple_to_string infer_config
          simple_registry [] cx_graph) =
         NotFound [''Can't find feed node: '', TensorIdToString (feed_id ?z)]"
    and e2: "snd (snd (AddPlaceholdersForFeeds front_order simple_parse simple_to_string
          infer_config simple_registry [] cx_graph)) = cx_graph"
    by blast+
  from T2 have "\<forall>f0 nd.
            last_feed_for (feed cx_config) (TensorIdToString (feed_id f0)) = Some f0 \<and>
            node_lookup (gd_node cx_graph) (node_name (feed_id f0)) = Some nd \<and>
            \<not> resolves simple_registry cx_graph f0 \<and>
            (\<forall>f' \<in> set (feed cx_config).
               node_name (feed_id f') \<notin> nd_name ` set (gd_node cx_graph) \<longrightarrow>
                 TensorIdToString (feed_id f0) < TensorIdToString (feed_id f')) \<and>
            (\<forall>f'. last_feed_for (feed cx_config) (TensorIdToString (feed_id f')) = Some f' \<and>
                  TensorIdToString (feed_id f') < TensorIdToString (feed_id f0) \<longrightarrow>
                  resolves simple_registry cx_graph f') \<longrightarrow>
            fst (AddPlaceholdersForFeeds front_order simple_parse simple_to_string cx_config
                  simple_registry [] cx_graph) =
              fst (infer_data_type simple_registry (gd_versions cx_graph) nd f0)"
    by (elim conjE)
  from this[rule_format, of ?a5 "mk_node ''A'' []"] l5 la5 r5 G1 G2 have
    e3: "fst (AddPlaceholdersForFeeds front_order simple_parse simple_to_string cx_config
                  simple_registry [] cx_graph) =
         fst (infer_data_type simple_registry (gd_versions cx_graph) (mk_node ''A'' []) ?a5)"
    by blast
  have n: "NotFound [''Can't find feed node: '', TensorIdToString (feed_id ?z)] =
      Error NOT_FOUND ''Can't find feed node: Z:0''"
    unfolding kz by (simp add: NotFound_def)
  show ?thesis using m1 m2 ab r0 r5 e1 e2 e3 i5 n by simp
qed

text \<open>
  The claim as first stated fails: with the feeds \<open>Z:0\<close> (typed, node absent) and
  \<open>A:5\<close> (untyped, node present with two outputs) the entry \<open>A:5\<close> is examined
  first and the function returns \<open>InvalidArgument\<close>, not \<open>NotFound\<close>.
\<close>

theorem AddPlaceholdersForFeeds_missing_node_counterexample:
  "mk_feed ''Z'' 0 1 \<in> set (feed cx_config) \<and>
   node_name (feed_id (mk_feed ''Z'' 0 1)) \<notin> nd_name ` set (gd_node cx_graph) \<and>
   AddPlaceholdersForFeeds front_order simple_parse simple_to_string cx_config
          simple_registry [] cx_graph =
     (Error INVALID_ARGUMENT ''Invalid output_index 5 for feed node A'',
      [(''A:5'', ''aot_feed_5/A''), (''Z:0'', ''aot_feed_0/Z'')], cx_graph)"
  by (simp add: AddPlaceholdersForFeeds_def cx_config_def cx_graph_def eval_defs
      infer_data_type_def num_outputs_def output_type_def)

section \<open>Properties of ReplaceNode\<close>

lemma diff_filter_mset: "M - filter_mset P M = filter_mset (\<lambda>x. \<not> P x) M"
  by (simp add: multiset_eq_iff)

lemma filter_mset_all: "\<forall>x \<in># M. P x \<Longrightarrow> filter_mset P M = M"
  by (induction M) auto

lemma filter_mset_none: "\<forall>x \<in># M. \<not> P x \<Longrightarrow> filter_mset P M = {#}"
  by (induction M) auto

lemma foldl_RemoveEdge:
  "mset (g_edges (foldl RemoveEdge g es)) = mset (g_edges g) - mset es \<and>
   g_nodes (foldl RemoveEdge g es) = g_nodes g \<and>
   g_num_node_ids (foldl RemoveEdge g es) = g_num_node_ids g"
  by (induction es arbitrary: g) (simp_all add: RemoveEdge_def)

lemma foldl_AddEdge_in:
  "g_edges (foldl (\<lambda>g in_edge. AddEdge g (e_src in_edge) (e_src_output in_edge) new_node
                                   (e_dst_input in_edge)) g es) =
     g_edges g @ map (\<lambda>e. \<lparr>e_src = e_src e, e_src_output = e_src_output e, e_dst = new_node,
                           e_dst_input = e_dst_input e\<rparr>) es \<and>
   g_nodes (foldl (\<lambda>g in_edge. AddEdge g (e_src in_edge) (e_src_output in_edge) new_node
                                   (e_dst_input in_edge)) g es) = g_nodes g"
  by (induction es arbitrary: g) (simp_all add: AddEdge_def)

lemma foldl_AddEdge_out:
  "g_edges (foldl (\<lambda>g out_edge. AddEdge g new_node (oe_src_output out_edge) (oe_dst out_edge)
                                    (oe_dst_input out_edge)) g es) =
     g_edges g @ map (\<lambda>oe. \<lparr>e_src = new_node, e_src_output = oe_src_output oe, e_dst = oe_dst oe,
                            e_dst_input = oe_dst_input oe\<rparr>) es \<and>
   g_nodes (foldl (\<lambda>g out_edge. AddEdge g new_node (oe_src_output out_edge) (oe_dst out_edge)
                                    (oe_dst_input out_edge)) g es) = g_nodes g"
  by (induction es arbitrary: g) (simp_all add: AddEdge_def)

lemma ReplaceNode_edges:
  assumes "ReplaceNode reg g n node_def = (OK, g', r)"
  shows "r = Some (g_num_node_ids g) \<and>
         g_nodes g' = filter (\<lambda>p. fst p \<noteq> n)
           (g_nodes g @ [(g_num_node_ids g,
              \<lparr>n_def = node_def, n_props = snd (BuildNode reg (g_versions g) node_def),
               n_assigned_device_name = []\<rparr>)]) \<and>
         mset (g_edges g') =
           filter_mset (\<lambda>e. e_src e \<noteq> n \<and> e_dst e \<noteq> n)
             (filter_mset (\<lambda>e. e_src e \<noteq> n) (mset (g_edges g)) +
              image_mset (\<lambda>e. \<lparr>e_src = e_src e, e_src_output = e_src_output e,
                                e_dst = g_num_node_ids g, e_dst_input = e_dst_input e\<rparr>)
                (filter_mset (\<lambda>e. e_src e \<noteq> n \<and> e_dst e = n) (mset (g_edges g))) +
              image_mset (\<lambda>e. \<lparr>e_src = g_num_node_ids g, e_src_output = e_src_output e,
                                e_dst = e_dst e, e_dst_input = e_dst_input e\<rparr>)
                (filter_mset (\<lambda>e. e_src e = n) (mset (g_edges g))))"
proof -
  let ?new = "g_num_node_ids g"
  obtain st props where b: "BuildNode reg (g_versions g) node_def = (st, props)"
    by (cases "BuildNode reg (g_versions g) node_def")
  have st: "st = OK"
  proof (cases st)
    case OK
    then show ?thesis .
  next
    case (Error c m)
    with assms b show ?thesis by (simp add: ReplaceNode_def AddNode_def)
  qed
  let ?g1 = "g\<lparr>g_nodes := g_nodes g @
                [(?new, \<lparr>n_def = node_def, n_props = props, n_assigned_device_name = []\<rparr>)],
              g_num_node_ids := Suc ?new\<rparr>"
  have an: "AddNode reg g node_def = (OK, ?g1, ?new)"
    using b st by (simp add: AddNode_def)
  let ?out = "out_edges ?g1 n"
  let ?g2 = "foldl RemoveEdge ?g1 ?out"
  let ?g3 = "foldl (\<lambda>g in_edge. AddEdge g (e_src in_edge) (e_src_output in_edge) ?new
                                    (e_dst_input in_edge)) ?g2 (in_edges ?g2 n)"
  let ?info = "map (\<lambda>edge. \<lparr>oe_dst = e_dst edge, oe_src_output = e_src_output edge,
                              oe_dst_input = e_dst_input edge\<rparr>) ?out"
  let ?g4 = "foldl (\<lambda>g out_edge. AddEdge g ?new (oe_src_output out_edge) (oe_dst out_edge)
                                     (oe_dst_input out_edge)) ?g3 ?info"
  have res: "ReplaceNode reg g n node_def = (OK, RemoveNode ?g4 n, Some ?new)"
    by (simp add: ReplaceNode_def an Let_def)
  with assms have g': "g' = RemoveNode ?g4 n" and r: "r = Some ?new" by simp_all
  have out: "mset ?out = filter_mset (\<lambda>e. e_src e = n) (mset (g_edges g))"
    by (simp add: out_edges_def)
  have e2: "mset (g_edges ?g2) = filter_mset (\<lambda>e. e_src e \<noteq> n) (mset (g_edges g))"
    using foldl_RemoveEdge[of ?g1 ?out] by (simp add: out diff_filter_mset)
  have n2: "g_nodes ?g2 = g_nodes ?g1"
    using foldl_RemoveEdge[of ?g1 ?out] by simp
  have in2: "mset (in_edges ?g2 n) =
      filter_mset (\<lambda>e. e_src e \<noteq> n \<and> e_dst e = n) (mset (g_edges g))"
    unfolding in_edges_def mset_filter e2 by (simp add: filter_filter_mset)
  have e3: "mset (g_edges ?g3) = mset (g_edges ?g2) +
      image_mset (\<lambda>e. \<lparr>e_src = e_src e, e_src_output = e_src_output e, e_dst = ?new,
                        e_dst_input = e_dst_input e\<rparr>) (mset (in_edges ?g2 n))"
    using foldl_AddEdge_in[of ?new ?g2 "in_edges ?g2 n"] by simp
  have n3: "g_nodes ?g3 = g_nodes ?g1"
    using foldl_AddEdge_in[of ?new ?g2 "in_edges ?g2 n"] n2 by simp
  have e4: "mset (g_edges ?g4) = mset (g_edges ?g3) +
      image_mset (\<lambda>e. \<lparr>e_src = ?new, e_src_output = e_src_output e, e_dst = e_dst e,
                        e_dst_input = e_dst_input e\<rparr>) (mset ?out)"
    using foldl_AddEdge_out[of ?new ?g3 ?info] by (simp add: o_def)
  have n4: "g_nodes ?g4 = g_nodes ?g1"
    using foldl_AddEdge_out[of ?new ?g3 ?info] n3 by simp
  have nodes: "g_nodes g' = filter (\<lambda>p. fst p \<noteq> n) (g_nodes ?g1)"
    unfolding g' by (simp add: RemoveNode_def n4)
  have edges: "mset (g_edges g') =
      filter_mset (\<lambda>e. e_src e \<noteq> n \<and> e_dst e \<noteq> n) (mset (g_edges ?g4))"
    unfolding g' by (simp add: RemoveNode_def)
  from b have props: "props = snd (BuildNode reg (g_versions g) node_def)" by simp
  show ?thesis
    unfolding edges e4 e3 e2 in2 out nodes using r by (simp add: props)
qed

text \<open>
  Claim C2, as amended. In a well-formed graph, for a node \<open>n\<close> of the graph that has
  no edge to itself and a node definition that can be built, \<open>ReplaceNode\<close> returns a
  new node that was not in the graph, removes \<open>n\<close> with every edge at it, and the
  multiset of edges incident to the new node is that of \<open>n\<close> before with the
  endpoint \<open>n\<close> replaced by the new node: the other endpoint, both slot indices and the
  control flag of every edge are kept.
\<close>

theorem ReplaceNode_preserves_incident_edges:
  assumes wf: "wf_graph g" and nin: "n \<in> fst ` set (g_nodes g)"
    and nl: "\<not> has_self_loop g n"
    and res: "ReplaceNode reg g n node_def = (OK, g', r)"
  shows "\<exists>new. r = Some new \<and> new \<notin> fst ` set (g_nodes g) \<and> new \<in> fst ` set (g_nodes g') \<and>
           n \<notin> fst ` set (g_nodes g') \<and> incident g' n = {#} \<and>
           incident g' new = image_mset (retarget n new) (incident g n) \<and>
           (\<forall>e. e_src_output (retarget n new e) = e_src_output e \<and>
                e_dst_input (retarget n new e) = e_dst_input e \<and>
                IsControlEdge (retarget n new e) = IsControlEdge e)"
proof -
  let ?new = "g_num_node_ids g"
  let ?E = "mset (g_edges g)"
  let ?fin = "\<lambda>e. \<lparr>e_src = e_src e, e_src_output = e_src_output e, e_dst = ?new,
                    e_dst_input = e_dst_input e\<rparr>"
  let ?fout = "\<lambda>e. \<lparr>e_src = ?new, e_src_output = e_src_output e, e_dst = e_dst e,
                     e_dst_input = e_dst_input e\<rparr>"
  let ?F = "filter_mset (\<lambda>e. e_src e \<noteq> n) ?E"
  let ?A = "filter_mset (\<lambda>e. e_src e \<noteq> n \<and> e_dst e = n) ?E"
  let ?B = "filter_mset (\<lambda>e. e_src e = n) ?E"
  from ReplaceNode_edges[OF res]
  have r: "r = Some ?new"
    and nodes: "g_nodes g' = filter (\<lambda>p. fst p \<noteq> n)
           (g_nodes g @ [(?new, \<lparr>n_def = node_def,
              n_props = snd (BuildNode reg (g_versions g) node_def),
              n_assigned_device_name = []\<rparr>)])"
    and edges: "mset (g_edges g') =
           filter_mset (\<lambda>e. e_src e \<noteq> n \<and> e_dst e \<noteq> n)
             (?F + image_mset ?fin ?A + image_mset ?fout ?B)"
    by blast+
  from wf have ids: "\<forall>p \<in> set (g_nodes g). fst p < ?new"
    and ends: "\<forall>e \<in> set (g_edges g). e_src e \<in> fst ` set (g_nodes g) \<and> e_dst e \<in> fst ` set (g_nodes g)"
    by (simp_all add: wf_graph_def)
  from ids have fresh: "?new \<notin> fst ` set (g_nodes g)" by auto
  with nin have ne: "n \<noteq> ?new" by blast
  from ends fresh have away: "\<forall>e \<in> set (g_edges g). e_src e \<noteq> ?new \<and> e_dst e \<noteq> ?new"
    by metis
  from nl have noloop: "\<forall>e \<in> set (g_edges g). e_src e = n \<longrightarrow> e_dst e \<noteq> n"
    by (auto simp: has_self_loop_def)
  have c1: "?new \<in> fst ` set (g_nodes g')"
    unfolding nodes using ne by force
  have c2: "n \<notin> fst ` set (g_nodes g')"
    unfolding nodes by auto
  have c3: "incident g' n = {#}"
    unfolding incident_def mset_filter edges filter_filter_mset
    by (rule filter_mset_none) auto
  let ?P = "\<lambda>e. (e_src e \<noteq> n \<and> e_dst e \<noteq> n) \<and> (e_src e = ?new \<or> e_dst e = ?new)"
  have p1: "filter_mset ?P ?F = {#}"
    using away by (intro filter_mset_none) auto
  have p2: "filter_mset ?P (image_mset ?fin ?A) = image_mset ?fin ?A"
    using ne by (intro filter_mset_all) auto
  have p3: "filter_mset ?P (image_mset ?fout ?B) = image_mset ?fout ?B"
    using ne noloop by (intro filter_mset_all) auto
  have "incident g' ?new =
      filter_mset (\<lambda>e. e_src e = ?new \<or> e_dst e = ?new)
        (filter_mset (\<lambda>e. e_src e \<noteq> n \<and> e_dst e \<noteq> n)
           (?F + image_mset ?fin ?A + image_mset ?fout ?B))"
    unfolding incident_def mset_filter edges ..
  also have "\<dots> = filter_mset ?P (?F + image_mset ?fin ?A + image_mset ?fout ?B)"
    by (rule filter_filter_mset)
  also have "\<dots> = filter_mset ?P ?F + filter_mset ?P (image_mset ?fin ?A) +
      filter_mset ?P (image_mset ?fout ?B)"
    by (simp only: filter_union_mset)
  also have "\<dots> = image_mset ?fin ?A + image_mset ?fout ?B"
    unfolding p1 p2 p3 by simp
  finally have lhs: "incident g' ?new = image_mset ?fin ?A + image_mset ?fout ?B" .
  have split: "filter_mset (\<lambda>e. e_src e = n \<or> e_dst e = n) ?E = ?A + ?B"
    by (auto simp: multiset_eq_iff)
  have ra: "image_mset (retarget n ?new) ?A = image_mset ?fin ?A"
    by (rule image_mset_cong) (simp add: retarget_def)
  have rb: "image_mset (retarget n ?new) ?B = image_mset ?fout ?B"
    using noloop by (intro image_mset_cong) (auto simp: retarget_def)
  have rhs: "image_mset (retarget n ?new) (incident g n) = image_mset ?fin ?A + image_mset ?fout ?B"
    unfolding incident_def mset_filter split by (simp add: ra rb)
  have c4: "incident g' ?new = image_mset (retarget n ?new) (incident g n)"
    unfolding lhs rhs ..
  have c5: "\<forall>e. e_src_output (retarget n ?new e) = e_src_output e \<and>
                e_dst_input (retarget n ?new e) = e_dst_input e \<and>
                IsControlEdge (retarget n ?new e) = IsControlEdge e"
    by (simp add: retarget_def IsControlEdge_def)
  from r fresh c1 c2 c3 c4 c5 show ?thesis by blast
qed

lemmas graph_eval_defs = ReplaceNode_def AddNode_def AddEdge_def RemoveEdge_def RemoveNode_def
  in_edges_def out_edges_def simple_registry_def mk_node_def Let_def

theorem ReplaceNode_preserves_incident_edges_witness:
  "wf_graph chain_graph \<and> 1 \<in> fst ` set (g_nodes chain_graph) \<and> \<not> has_self_loop chain_graph 1 \<and>
   fst (ReplaceNode simple_registry chain_graph 1 (mk_node ''b2'' [''a:1'', ''^a''])) = OK \<and>
   snd (snd (ReplaceNode simple_registry chain_graph 1 (mk_node ''b2'' [''a:1'', ''^a'']))) = Some 3 \<and>
   incident chain_graph 1 =
     {#\<lparr>e_src = 0, e_src_output = 1, e_dst = 1, e_dst_input = 0\<rparr>,
       \<lparr>e_src = 0, e_src_output = - 1, e_dst = 1, e_dst_input = - 1\<rparr>,
       \<lparr>e_src = 1, e_src_output = 0, e_dst = 2, e_dst_input = 0\<rparr>,
       \<lparr>e_src = 1, e_src_output = 0, e_dst = 2, e_dst_input = 1\<rparr>#} \<and>
   incident (fst (snd (ReplaceNode simple_registry chain_graph 1 (mk_node ''b2'' [''a:1'', ''^a''])))) 3 =
     {#\<lparr>e_src = 0, e_src_output = 1, e_dst = 3, e_dst_input = 0\<rparr>,
       \<lparr>e_src = 0, e_src_output = - 1, e_dst = 3, e_dst_input = - 1\<rparr>,
       \<lparr>e_src = 3, e_src_output = 0, e_dst = 2, e_dst_input = 0\<rparr>,
       \<lparr>e_src = 3, e_src_output = 0, e_dst = 2, e_dst_input = 1\<rparr>#}"
proof -
  have a: "wf_graph chain_graph" by (simp add: wf_graph_def chain_graph_def)
  have b: "1 \<in> fst ` set (g_nodes chain_graph)" by (simp add: chain_graph_def)
  have c: "\<not> has_self_loop chain_graph 1" by (simp add: has_self_loop_def chain_graph_def)
  obtain g' r where res: "ReplaceNode simple_registry chain_graph 1 (mk_node ''b2'' [''a:1'', ''^a'']) =
      (OK, g', r)"
    by (simp add: graph_eval_defs chain_graph_def)
  have r: "r = Some 3" using res by (simp add: graph_eval_defs chain_graph_def)
  have i: "incident chain_graph 1 =
     {#\<lparr>e_src = 0, e_src_output = 1, e_dst = 1, e_dst_input = 0\<rparr>,
       \<lparr>e_src = 0, e_src_output = - 1, e_dst = 1, e_dst_input = - 1\<rparr>,
       \<lparr>e_src = 1, e_src_output = 0, e_dst = 2, e_dst_input = 0\<rparr>,
       \<lparr>e_src = 1, e_src_output = 0, e_dst = 2, e_dst_input = 1\<rparr>#}"
    by (simp add: incident_def chain_graph_def)
  from ReplaceNode_preserves_incident_edges[OF a b c res] r
  have "incident g' 3 = image_mset (retarget 1 3) (incident chain_graph 1)" by auto
  then have "incident g' 3 =
     {#\<lparr>e_src = 0, e_src_output = 1, e_dst = 3, e_dst_input = 0\<rparr>,
       \<lparr>e_src = 0, e_src_output = - 1, e_dst = 3, e_dst_input = - 1\<rparr>,
       \<lparr>e_src = 3, e_src_output = 0, e_dst = 2, e_dst_input = 0\<rparr>,
       \<lparr>e_src = 3, e_src_output = 0, e_dst = 2, e_dst_input = 1\<rparr>#}"
    unfolding i by (simp add: retarget_def)
  with a b c res r i show ?thesis by simp
qed

text \<open>
  The claim as first stated fails for a node with an edge to itself. The edge is
  recorded among the output edges and removed; it is then re-created from the new node to
  the old one, and removed with the old node. The new node ends with no edge where the
  old one had one.
\<close>

theorem ReplaceNode_self_loop_counterexample:
  "wf_graph loop_graph \<and> 0 \<in> fst ` set (g_nodes loop_graph) \<and>
   incident loop_graph 0 = {#\<lparr>e_src = 0, e_src_output = 0, e_dst = 0, e_dst_input = 0\<rparr>#} \<and>
   fst (ReplaceNode simple_registry loop_graph 0 (mk_node ''n2'' [''n2''])) = OK \<and>
   snd (snd (ReplaceNode simple_registry loop_graph 0 (mk_node ''n2'' [''n2'']))) = Some 1 \<and>
   g_edges (fst (snd (ReplaceNode simple_registry loop_graph 0 (mk_node ''n2'' [''n2''])))) = [] \<and>
   incident (fst (snd (ReplaceNode simple_registry loop_graph 0 (mk_node ''n2'' [''n2''])))) 1 = {#}"
  by (simp add: graph_eval_defs loop_graph_def wf_graph_def incident_def)

end
